(* ===== verification/Wae_Prelude.thy ===== *)
theory Wae_Prelude
  imports Main "HOL-Library.Word" "HOL-Library.State_Monad"
begin

text \<open>
  Shared vocabulary of the development: Rust's \<open>io::Result\<close> and \<open>Poll\<close>, the machine
  integers, the Win32 calls the crate makes, and the state monad in which the
  operations run.

  \<^bold>\<open>External code.\<close> The Win32 API and the crate \<open>atomic-waker\<close> are not part of the
  repository. They are a parameter, a record \<open>platform\<close>: every call is appended to the
  log of the world, and the answer of the platform is an arbitrary function of that log.
  A theorem that quantifies over the platform therefore holds whatever the system
  answers, and what a theorem relies on is a hypothesis about the platform.
\<close>

section \<open>Machine integers, results and polls\<close>

type_synonym u16 = "16 word"
type_synonym u32 = "32 word"
type_synonym usize = "64 word"

text \<open>Raw pointers, handles and sockets: only compared and passed on, \<open>0\<close> is null.\<close>

type_synonym ptr = int
type_synonym waker = nat

datatype io_error = Os int | NotFound string

text \<open>
  What a Rust computation can end with beside a value: a panic, or undefined behaviour
  (a read of uninitialised memory).
\<close>

datatype fault = Panicked string | Undefined string

datatype 'a res = Ok 'a | Err io_error | Fault fault

datatype 'a poll = Ready 'a | Pending

fun is_ok :: "'a res \<Rightarrow> bool" where
  "is_ok (Ok _) = True"
| "is_ok _ = False"

text \<open>\<open>Result::unwrap\<close> and \<open>Result::ok\<close>.\<close>

fun unwrap :: "'a res \<Rightarrow> 'a res" where
  "unwrap (Ok x) = Ok x"
| "unwrap (Err e) = Fault (Panicked ''called Result::unwrap() on an Err value'')"
| "unwrap (Fault f) = Fault f"

fun res_ok :: "'a res \<Rightarrow> 'a option res" where
  "res_ok (Ok x) = Ok (Some x)"
| "res_ok (Err e) = Ok None"
| "res_ok (Fault f) = Fault f"

fun raw_os_error :: "io_error \<Rightarrow> int option" where
  "raw_os_error (Os n) = Some n"
| "raw_os_error (NotFound _) = None"

fun map_res :: "('a \<Rightarrow> 'b) \<Rightarrow> 'a res \<Rightarrow> 'b res" where
  "map_res f (Ok x) = Ok (f x)"
| "map_res f (Err e) = Err e"
| "map_res f (Fault x) = Fault x"

section \<open>The platform\<close>

text \<open>The fields of \<open>TP_CALLBACK_ENVIRON_V3\<close> the crate writes.\<close>

record tp_environ =
  Version :: u32
  Pool :: ptr
  CleanupGroup :: ptr
  RaceDll :: ptr
  ActivationContext :: ptr
  CallbackPriority :: u32
  Size :: u32

text \<open>\<open>WSABUF\<close>.\<close>

record wsabuf =
  buf_len :: u32
  buf_ptr :: ptr

text \<open>
  The \<open>OVERLAPPED\<close> structure an operation uses, by the object that holds it: the halves of an
  \<open>IoHandle\<close>, the event of a connect or an accept, the event of an address lookup.
\<close>

datatype overlapped = OvRead | OvWrite | OvEvent | OvLookup

text \<open>Addresses of \<open>std::net\<close>, and the structures given to \<open>bind\<close>.\<close>

datatype ip_addr = IpV4 u32 | IpV6 "128 word"

datatype socket_addr_v4 = SocketAddrV4 u32 u16
datatype socket_addr_v6 = SocketAddrV6 "128 word" u16 u32 u32

datatype socket_addr = V4 socket_addr_v4 | V6 socket_addr_v6

datatype raw_sockaddr =
    RawAddr socket_addr
  | Raw_IN6 u16 \<comment> \<open>\<open>SOCKADDR_IN6\<close> with this family, any address, port 0\<close>
  | Raw_IN u16 \<comment> \<open>\<open>SOCKADDR_IN\<close>, likewise\<close>

datatype guid = WSAID_CONNECTEX | WSAID_ACCEPTEX | WSAID_GETACCEPTEXSOCKADDRS

text \<open>A task queue of a pool, by the field of \<open>HandleInner\<close> that holds it.\<close>

datatype queue_id = high_queue | normal_queue | low_queue

datatype call =
    GetLastError
  | WSAGetLastError
  | GetSystemInfo
  | CreateThreadpool
  | SetThreadpoolThreadMaximum ptr u32
  | SetThreadpoolThreadMinimum ptr u32
  | CloseThreadpool ptr
  | CreateThreadpoolCleanupGroup
  | CloseThreadpoolCleanupGroupMembers ptr
  | CloseThreadpoolCleanupGroup ptr
  | CreateThreadpoolWork queue_id tp_environ
  | SubmitThreadpoolWork ptr
  | WSAStartup u16
  | CallbackMayRunLong ptr
  | CreateEventW
  | ResetEvent ptr
  | CloseHandle ptr
  | CreateThreadpoolWait tp_environ
  | SetThreadpoolWait ptr ptr
  | CloseThreadpoolWait ptr
  | GetOverlappedResult ptr overlapped
  | CreateThreadpoolIo ptr tp_environ
  | StartThreadpoolIo ptr
  | CloseThreadpoolIo ptr
  | CancelIoEx ptr overlapped
  | WSASocketW
  | closesocket ptr
  | WSARecv ptr overlapped wsabuf
  | WSASend ptr overlapped wsabuf
  | WSAGetOverlappedResult ptr overlapped
  | WSAIoctl ptr guid
  | WinBind ptr raw_sockaddr
  | WinListen ptr
  | ConnectEx ptr socket_addr nat nat
      \<comment> \<open>the address, how many of its bytes are at the pointer, and the length passed\<close>
  | AcceptEx ptr ptr u32 overlapped
  | GetAcceptExSockaddrs u32
  | GetAddrInfoExW "u16 list" "u16 list option"
  | FreeAddrInfoExW ptr
  | WakeTask waker

text \<open>
  The operations on an \<open>AtomicWaker\<close>. The object is represented by the operations
  performed on it so far.
\<close>

datatype aw_op = Register waker | Wake

type_synonym atomic_waker = "aw_op list"

record platform =
  win :: "call list \<Rightarrow> call \<Rightarrow> int"
    \<comment> \<open>the return value of a call, given the calls before it\<close>
  outp :: "call list \<Rightarrow> call \<Rightarrow> int"
    \<comment> \<open>the value a call leaves in its out parameter\<close>
  aw_wake :: "atomic_waker \<Rightarrow> waker option"
    \<comment> \<open>the waker \<open>AtomicWaker::wake\<close> wakes after these operations\<close>
  c_TRUE :: int
  c_FALSE :: int
  c_INVALID_SOCKET :: ptr
  c_PRIORITY_HIGH :: u32
  c_PRIORITY_NORMAL :: u32
  c_PRIORITY_LOW :: u32
  sizeof_environ :: u32
  sizeof_SOCKADDR_IN6 :: usize

text \<open>
  The world of one thread: the calls made so far and the thread-local \<open>HANDLE\<close> of
  \<open>context.rs\<close> (its type is fixed in the theory of the thread pool). Components with shared
  memory extend this record by the memory.
\<close>

record 'h world =
  wlog :: "call list"
  wctx :: "'h option"

section \<open>Running operations\<close>

definition sys :: "platform \<Rightarrow> call \<Rightarrow> (('h, 'z) world_scheme, int) state" where
  "sys p c = State (\<lambda>w. (win p (wlog w) c, w\<lparr>wlog := wlog w @ [c]\<rparr>))"

text \<open>A call with an out parameter: the return value and what the parameter then holds.\<close>

definition sys_out :: "platform \<Rightarrow> call \<Rightarrow> (('h, 'z) world_scheme, int \<times> int) state" where
  "sys_out p c =
     State (\<lambda>w. ((win p (wlog w) c, outp p (wlog w) c), w\<lparr>wlog := wlog w @ [c]\<rparr>))"

text \<open>\<open>io::Error::last_os_error()\<close>.\<close>

definition last_os_error :: "platform \<Rightarrow> (('h, 'z) world_scheme, io_error) state" where
  "last_os_error p = do { n \<leftarrow> sys p GetLastError; State_Monad.return (Os n) }"

definition fail_last :: "platform \<Rightarrow> (('h, 'z) world_scheme, 'a res) state" where
  "fail_last p = do { e \<leftarrow> last_os_error p; State_Monad.return (Err e) }"

text \<open>Rust's \<open>?\<close>: an \<open>Err\<close> returns from the enclosing function; a fault unwinds it.\<close>

definition qmark ::
  "('s, 'a res) state \<Rightarrow> ('a \<Rightarrow> ('s, 'b res) state) \<Rightarrow> ('s, 'b res) state" where
  "qmark m f = do {
     r \<leftarrow> m;
     case r of Ok x \<Rightarrow> f x
     | Err e \<Rightarrow> State_Monad.return (Err e)
     | Fault x \<Rightarrow> State_Monad.return (Fault x) }"

named_theorems run_simps \<open>running the monadic operations\<close>

lemma run_sys [run_simps]:
  "run_state (sys p c) w = (win p (wlog w) c, w\<lparr>wlog := wlog w @ [c]\<rparr>)"
  by (simp add: sys_def)

lemma run_sys_out [run_simps]:
  "run_state (sys_out p c) w =
     ((win p (wlog w) c, outp p (wlog w) c), w\<lparr>wlog := wlog w @ [c]\<rparr>)"
  by (simp add: sys_out_def)

lemma run_last_os_error [run_simps]:
  "run_state (last_os_error p) w =
     (Os (win p (wlog w) GetLastError), w\<lparr>wlog := wlog w @ [GetLastError]\<rparr>)"
  by (simp add: last_os_error_def run_simps)

lemma run_fail_last [run_simps]:
  "run_state (fail_last p) w =
     (Err (Os (win p (wlog w) GetLastError)), w\<lparr>wlog := wlog w @ [GetLastError]\<rparr>)"
  by (simp add: fail_last_def run_simps)

lemma run_qmark [run_simps]:
  "run_state (qmark m f) w =
     (case run_state m w of (r, w') \<Rightarrow>
        (case r of Ok x \<Rightarrow> run_state (f x) w' | Err e \<Rightarrow> (Err e, w') | Fault x \<Rightarrow> (Fault x, w')))"
  by (simp add: qmark_def split: prod.split res.split)

text \<open>The answer of a program and the calls it adds to the log, in one place.\<close>

definition calls_of :: "(('h, 'z) world_scheme, 'a) state \<Rightarrow> ('h, 'z) world_scheme \<Rightarrow> call list" where
  "calls_of m w = drop (length (wlog w)) (wlog (snd (run_state m w)))"

section \<open>Atomic cells and busy waiting\<close>

text \<open>\<open>compare_exchange(..).is_ok()\<close> on an atomic integer: the answer and the new value.\<close>

definition compare_exchange :: "'a \<Rightarrow> 'a \<Rightarrow> 'a \<Rightarrow> bool \<times> 'a" where
  "compare_exchange old new s = (if s = old then (True, new) else (False, s))"

text \<open>
  \<open>while b { thread::yield_now() }\<close>. Each \<open>yield_now\<close> lets the other threads run: the
  list gives what they do to the shared state between two evaluations of the condition.
  \<open>None\<close> is a loop that is still running when the list is used up.
\<close>

fun spin_while :: "('s \<Rightarrow> bool) \<Rightarrow> ('s \<Rightarrow> 's) list \<Rightarrow> 's \<Rightarrow> 's option" where
  "spin_while b [] s = (if b s then None else Some s)"
| "spin_while b (e # es) s = (if b s then spin_while b es (e s) else Some s)"

lemma spin_while_exit [simp]: "\<not> b s \<Longrightarrow> spin_while b es s = Some s"
  by (cases es) auto

lemma spin_while_result: "spin_while b es s = Some t \<Longrightarrow> \<not> b t"
  by (induction b es s rule: spin_while.induct) (auto split: if_splits)

lemma spin_while_invariant:
  assumes "\<And>e s. e \<in> set es \<Longrightarrow> I s \<Longrightarrow> I (e s)" and "I s" and "spin_while b es s = Some t"
  shows "I t"
  using assms by (induction b es s rule: spin_while.induct) (auto split: if_splits)

text \<open>A loop whose condition the other threads never make false does not return.\<close>

lemma spin_while_stuck:
  assumes "\<And>e s. e \<in> set es \<Longrightarrow> I s \<Longrightarrow> I (e s)" and "I s" and "\<And>s. I s \<Longrightarrow> b s"
  shows "spin_while b es s = None"
  using assms by (induction b es s rule: spin_while.induct) auto

text \<open>And it returns as soon as one of their steps makes it false.\<close>

lemma spin_while_released:
  assumes "\<And>s. I s \<Longrightarrow> \<not> b (e s)" and "\<And>d s. d \<in> set es \<Longrightarrow> I s \<Longrightarrow> I (d s)" and "I s"
  shows "\<exists>t. spin_while b (es @ e # fs) s = Some t"
  using assms by (induction b es s rule: spin_while.induct) auto

section \<open>Documented behaviour of the platform\<close>

text \<open>
  The hypotheses used below, one definition each. The Win32 headers fix the constants;
  the documentation of \<open>AtomicWaker\<close> says that \<open>wake\<close> wakes the last registered waker
  and takes it.
\<close>

definition bool_consts :: "platform \<Rightarrow> bool" where
  "bool_consts p \<longleftrightarrow> c_TRUE p \<noteq> 0 \<and> c_FALSE p = 0"

definition priority_consts :: "platform \<Rightarrow> bool" where
  "priority_consts p \<longleftrightarrow>
     c_PRIORITY_HIGH p < c_PRIORITY_NORMAL p \<and> c_PRIORITY_NORMAL p < c_PRIORITY_LOW p"

definition waker_law :: "platform \<Rightarrow> bool" where
  "waker_law p \<longleftrightarrow>
     aw_wake p [] = None \<and>
     (\<forall>h k. aw_wake p (h @ [Register k]) = Some k) \<and>
     (\<forall>h. aw_wake p (h @ [Wake]) = None)"

lemma waker_lawD:
  assumes "waker_law p"
  shows "aw_wake p [] = None"
    and "aw_wake p (h @ [Register k]) = Some k"
    and "aw_wake p (h @ [Wake]) = None"
  using assms by (auto simp: waker_law_def)

text \<open>
  A concrete platform, to evaluate the definitions on: \<open>answers\<close> gives the return value
  of a call, the last registered waker is the one woken.
\<close>

definition last_registered :: "atomic_waker \<Rightarrow> waker option" where
  "last_registered h =
     (case rev h of Register k # _ \<Rightarrow> Some k | _ \<Rightarrow> None)"

definition sample_platform :: "(call \<Rightarrow> int) \<Rightarrow> platform" where
  "sample_platform answers = \<lparr>
     win = (\<lambda>_ c. answers c), outp = (\<lambda>_ c. 8),
     aw_wake = last_registered,
     c_TRUE = 1, c_FALSE = 0, c_INVALID_SOCKET = -1,
     c_PRIORITY_HIGH = 0, c_PRIORITY_NORMAL = 1, c_PRIORITY_LOW = 2,
     sizeof_environ = 72, sizeof_SOCKADDR_IN6 = 28 \<rparr>"

lemma sample_platform_laws [simp]:
  "bool_consts (sample_platform f)"
  "priority_consts (sample_platform f)"
  "waker_law (sample_platform f)"
  by (simp_all add: bool_consts_def priority_consts_def waker_law_def sample_platform_def
      last_registered_def)

lemma sample_platform_sel [simp]:
  "win (sample_platform f) h c = f c"
  "c_TRUE (sample_platform f) = 1"
  "c_FALSE (sample_platform f) = 0"
  "outp (sample_platform f) h c = 8"
  "c_INVALID_SOCKET (sample_platform f) = -1"
  "aw_wake (sample_platform f) = last_registered"
  by (simp_all add: sample_platform_def)

end
