(* ===== verification/Threadpool.thy ===== *)
theory Threadpool
  imports Wae_Prelude
begin

text \<open>
  \<open>src/threadpool.rs\<close>: priorities, the builder, the handle of a Win32 thread pool and its
  life cycle. The task queues themselves, which \<open>push_task\<close> fills and the pool's
  callbacks drain, are in the theory of the executor.
\<close>

section \<open>Priorities\<close>

datatype priority = High | Normal | Low

datatype ordering = Less | Equal | Greater

text \<open>\<open>self as u32\<close>: the discriminants are the constants of the Win32 headers.\<close>

fun priority_as_u32 :: "platform \<Rightarrow> priority \<Rightarrow> u32" where
  "priority_as_u32 p High = c_PRIORITY_HIGH p"
| "priority_as_u32 p Normal = c_PRIORITY_NORMAL p"
| "priority_as_u32 p Low = c_PRIORITY_LOW p"

definition priority_default :: priority where
  "priority_default = Normal"

definition u32_cmp :: "u32 \<Rightarrow> u32 \<Rightarrow> ordering" where
  "u32_cmp a b = (if a < b then Less else if a = b then Equal else Greater)"

definition priority_cmp :: "platform \<Rightarrow> priority \<Rightarrow> priority \<Rightarrow> ordering" where
  "priority_cmp p self other =
     (case u32_cmp (priority_as_u32 p self) (priority_as_u32 p other) of
        Less \<Rightarrow> Greater
      | Equal \<Rightarrow> Equal
      | Greater \<Rightarrow> Less)"

definition priority_partial_cmp :: "platform \<Rightarrow> priority \<Rightarrow> priority \<Rightarrow> ordering option" where
  "priority_partial_cmp p self other = Some (priority_cmp p self other)"

section \<open>Handles and builders\<close>

record handle_inner =
  high_work :: ptr
  normal_work :: ptr
  low_work :: ptr
  inner_environ :: tp_environ

record handle =
  inner :: handle_inner
  h_priority :: priority
  callback_instance :: "ptr option"

record threadpool =
  pool_handle :: handle

record builder =
  max_threads :: u32
  min_threads :: u32
  net :: bool

type_synonym 'z wae = "(handle, 'z) world_scheme"

definition builder_new :: "platform \<Rightarrow> ('z wae, builder) state" where
  "builder_new p = do {
     r \<leftarrow> sys_out p GetSystemInfo;
     State_Monad.return
       \<lparr>max_threads = 512, min_threads = word_of_int (snd r), net = True\<rparr> }"

text \<open>\<open>Default\<close>.\<close>

definition builder_default :: "platform \<Rightarrow> ('z wae, builder) state" where
  "builder_default p = builder_new p"

text \<open>\<open>Deref\<close>: a pool is used through its handle.\<close>

definition threadpool_deref :: "threadpool \<Rightarrow> handle" where
  "threadpool_deref self = pool_handle self"

text \<open>The three setters, with the assignments the source makes.\<close>

definition builder_min_threads :: "builder \<Rightarrow> u32 \<Rightarrow> builder" where
  "builder_min_threads self mx = self\<lparr>max_threads := mx\<rparr>"

definition builder_max_threads :: "builder \<Rightarrow> u32 \<Rightarrow> builder" where
  "builder_max_threads self mn = self\<lparr>min_threads := mn\<rparr>"

definition builder_net :: "builder \<Rightarrow> bool \<Rightarrow> builder" where
  "builder_net self enabled = self\<lparr>net := enabled\<rparr>"

section \<open>Creating and closing a pool\<close>

text \<open>The three closing calls, made by \<open>HandleInner::drop\<close> and when \<open>create_work\<close> fails.\<close>

definition close_pool :: "platform \<Rightarrow> tp_environ \<Rightarrow> ('z wae, unit) state" where
  "close_pool p ce = do {
     _ \<leftarrow> sys p (CloseThreadpoolCleanupGroupMembers (CleanupGroup ce));
     _ \<leftarrow> sys p (CloseThreadpoolCleanupGroup (CleanupGroup ce));
     _ \<leftarrow> sys p (CloseThreadpool (Pool ce));
     State_Monad.return () }"

definition handle_inner_drop :: "platform \<Rightarrow> handle_inner \<Rightarrow> ('z wae, unit) state" where
  "handle_inner_drop p self = close_pool p (inner_environ self)"

definition create_work ::
  "platform \<Rightarrow> priority \<Rightarrow> queue_id \<Rightarrow> tp_environ \<Rightarrow> ('z wae, ptr res) state" where
  "create_work p prio queue callback_environ =
     (let ce = callback_environ\<lparr>CallbackPriority := priority_as_u32 p prio\<rparr> in do {
       work \<leftarrow> sys p (CreateThreadpoolWork queue ce);
       if work \<noteq> 0 then State_Monad.return (Ok work)
       else do {
         _ \<leftarrow> close_pool p ce;
         fail_last p
       } })"

text \<open>
  \<open>?\<close> in a function that owns the \<open>Arc<HandleInner>\<close>: leaving the function drops it.
\<close>

definition qmark_drop ::
  "('z wae, unit) state \<Rightarrow> ('z wae, 'a res) state \<Rightarrow> ('a \<Rightarrow> ('z wae, 'b res) state) \<Rightarrow> ('z wae, 'b res) state"
  where
  "qmark_drop dropped m f = do {
     r \<leftarrow> m;
     case r of Ok x \<Rightarrow> f x
     | Err e \<Rightarrow> do { _ \<leftarrow> dropped; State_Monad.return (Err e) }
     | Fault x \<Rightarrow> do { _ \<leftarrow> dropped; State_Monad.return (Fault x) } }"

text \<open>
  The second half of \<open>Builder::build\<close>, from the creation of the \<open>Arc\<close> on: the three work
  items, Winsock, and the handle.
\<close>

definition build_works :: "platform \<Rightarrow> builder \<Rightarrow> ptr \<Rightarrow> tp_environ \<Rightarrow> ('z wae, threadpool res) state"
  where
  "build_works p self pool ce =
     (let inner = \<lparr>high_work = 0, normal_work = 0, low_work = 0, inner_environ = ce\<rparr>;
          dropped = handle_inner_drop p inner
      in qmark_drop dropped (create_work p High high_queue ce) (\<lambda>hw.
         qmark_drop dropped (create_work p Normal normal_queue ce) (\<lambda>nw.
         qmark_drop dropped (create_work p Low low_queue ce) (\<lambda>lw.
         let built = State_Monad.return (Ok \<lparr>pool_handle =
               \<lparr>inner = \<lparr>high_work = hw, normal_work = nw, low_work = lw, inner_environ = ce\<rparr>,
                h_priority = Normal, callback_instance = None\<rparr>\<rparr>)
         in if net self then do {
              ret \<leftarrow> sys p (WSAStartup 0x0202);
              if ret \<noteq> 0 then do {
                _ \<leftarrow> sys p (CloseThreadpool pool);
                _ \<leftarrow> dropped;
                State_Monad.return (Err (Os ret))
              } else built
            } else built))))"

definition build :: "platform \<Rightarrow> builder \<Rightarrow> ('z wae, threadpool res) state" where
  "build p self = do {
     pool \<leftarrow> sys p CreateThreadpool;
     if pool = 0 then fail_last p
     else do {
       _ \<leftarrow> sys p (SetThreadpoolThreadMaximum pool (max_threads self));
       r \<leftarrow> sys p (SetThreadpoolThreadMinimum pool (min_threads self));
       if r = c_FALSE p then do {
         _ \<leftarrow> sys p (CloseThreadpool pool);
         fail_last p
       } else do {
         cleanup_group \<leftarrow> sys p CreateThreadpoolCleanupGroup;
         if cleanup_group = 0 then do {
           _ \<leftarrow> sys p (CloseThreadpool pool);
           fail_last p
         } else
           build_works p self pool
             \<lparr>Version = 3, Pool = pool, CleanupGroup = cleanup_group, RaceDll = 0,
              ActivationContext = 0,
              CallbackPriority = priority_as_u32 p priority_default,
              Size = sizeof_environ p\<rparr>
       } } }"

definition threadpool_new :: "platform \<Rightarrow> ('z wae, threadpool res) state" where
  "threadpool_new p = do { b \<leftarrow> builder_new p; build p b }"

section \<open>Operations of a handle\<close>

definition handle_callback_environ :: "platform \<Rightarrow> handle \<Rightarrow> tp_environ" where
  "handle_callback_environ p self =
     (inner_environ (inner self))\<lparr>CallbackPriority := priority_as_u32 p (h_priority self)\<rparr>"

definition set_max_threads :: "platform \<Rightarrow> handle \<Rightarrow> u32 \<Rightarrow> ('z wae, handle) state" where
  "set_max_threads p self maximum = do {
     _ \<leftarrow> sys p (SetThreadpoolThreadMaximum (Pool (inner_environ (inner self))) maximum);
     State_Monad.return self }"

definition try_set_min_threads :: "platform \<Rightarrow> handle \<Rightarrow> u32 \<Rightarrow> ('z wae, handle res) state" where
  "try_set_min_threads p self minimum = do {
     r \<leftarrow> sys p (SetThreadpoolThreadMinimum (Pool (inner_environ (inner self))) minimum);
     if r = c_TRUE p then State_Monad.return (Ok self) else fail_last p }"

definition set_min_threads :: "platform \<Rightarrow> handle \<Rightarrow> u32 \<Rightarrow> ('z wae, handle res) state" where
  "set_min_threads p self minimum = do {
     r \<leftarrow> try_set_min_threads p self minimum;
     State_Monad.return (unwrap r) }"

definition handle_priority :: "handle \<Rightarrow> priority" where
  "handle_priority self = h_priority self"

definition set_priority :: "handle \<Rightarrow> priority \<Rightarrow> handle" where
  "set_priority self prio = self\<lparr>h_priority := prio\<rparr>"

section \<open>The order on priorities\<close>

text \<open>
  The order the type is meant to have, as an instance of \<open>linorder\<close>: \<open>High\<close> is the
  greatest. The comparison of the source computes it from the header constants.
\<close>

fun priority_rank :: "priority \<Rightarrow> nat" where
  "priority_rank Low = 0"
| "priority_rank Normal = 1"
| "priority_rank High = 2"

lemma priority_rank_inject: "priority_rank a = priority_rank b \<longleftrightarrow> a = b"
  by (cases a; cases b) simp_all

instantiation priority :: linorder
begin

definition less_eq_priority :: "priority \<Rightarrow> priority \<Rightarrow> bool" where
  "less_eq_priority a b \<longleftrightarrow> priority_rank a \<le> priority_rank b"

definition less_priority :: "priority \<Rightarrow> priority \<Rightarrow> bool" where
  "less_priority a b \<longleftrightarrow> priority_rank a < priority_rank b"

instance
  by standard (auto simp: less_eq_priority_def less_priority_def priority_rank_inject)

end

lemma priority_cmp_values:
  assumes "priority_consts p"
  shows "priority_cmp p a b = (if a < b then Less else if a = b then Equal else Greater)"
  using assms
  by (cases a; cases b)
    (auto simp: priority_cmp_def u32_cmp_def priority_consts_def less_priority_def)

section \<open>What building a pool does\<close>

lemma run_close_pool [run_simps]:
  "run_state (close_pool p ce) w =
     ((), w\<lparr>wlog := wlog w @ [CloseThreadpoolCleanupGroupMembers (CleanupGroup ce),
        CloseThreadpoolCleanupGroup (CleanupGroup ce), CloseThreadpool (Pool ce)]\<rparr>)"
  by (simp add: close_pool_def run_simps)

lemma run_qmark_drop [run_simps]:
  "run_state (qmark_drop d m f) w =
     (case run_state m w of (r, w') \<Rightarrow>
        (case r of Ok x \<Rightarrow> run_state (f x) w'
         | Err e \<Rightarrow> (Err e, snd (run_state d w'))
         | Fault x \<Rightarrow> (Fault x, snd (run_state d w'))))"
  by (simp add: qmark_drop_def split: prod.split res.split)

text \<open>The environment a work item is created with.\<close>

abbreviation with_priority :: "platform \<Rightarrow> priority \<Rightarrow> tp_environ \<Rightarrow> tp_environ" where
  "with_priority p prio ce \<equiv> ce\<lparr>CallbackPriority := priority_as_u32 p prio\<rparr>"

text \<open>The calls of \<open>create_work\<close>, by outcome.\<close>

definition failed_work_calls :: "platform \<Rightarrow> priority \<Rightarrow> queue_id \<Rightarrow> tp_environ \<Rightarrow> call list" where
  "failed_work_calls p prio q ce =
     [CreateThreadpoolWork q (with_priority p prio ce),
      CloseThreadpoolCleanupGroupMembers (CleanupGroup ce),
      CloseThreadpoolCleanupGroup (CleanupGroup ce), CloseThreadpool (Pool ce), GetLastError]"

lemma create_work_cases:
  obtains (created) work where "work \<noteq> 0"
      "run_state (create_work p prio q ce) w =
         (Ok work, w\<lparr>wlog := wlog w @ [CreateThreadpoolWork q (with_priority p prio ce)]\<rparr>)"
  | (failed) e where
      "run_state (create_work p prio q ce) w =
         (Err e, w\<lparr>wlog := wlog w @ failed_work_calls p prio q ce\<rparr>)"
proof (cases "win p (wlog w) (CreateThreadpoolWork q (with_priority p prio ce)) = 0")
  case True
  let ?e = "Os (win p (wlog w @ butlast (failed_work_calls p prio q ce)) GetLastError)"
  have "run_state (create_work p prio q ce) w =
      (Err ?e, w\<lparr>wlog := wlog w @ failed_work_calls p prio q ce\<rparr>)"
    using True by (simp add: create_work_def failed_work_calls_def run_simps Let_def)
  then show ?thesis by (rule failed)
next
  case False
  show ?thesis
    by (rule created [OF False]) (use False in \<open>simp add: create_work_def run_simps Let_def\<close>)
qed

text \<open>What \<open>build_works\<close> leaves in the log when it fails: some prefix that made a work item, and
  the two closings.\<close>

definition close_calls :: "tp_environ \<Rightarrow> call list" where
  "close_calls ce =
     [CloseThreadpoolCleanupGroupMembers (CleanupGroup ce),
      CloseThreadpoolCleanupGroup (CleanupGroup ce), CloseThreadpool (Pool ce)]"

lemma build_works_cases:
  assumes "Pool ce = pool"
  obtains (built) hw nw lw where "hw \<noteq> 0" "nw \<noteq> 0" "lw \<noteq> 0"
      "run_state (build_works p b pool ce) w =
         (Ok \<lparr>pool_handle = \<lparr>inner = \<lparr>high_work = hw, normal_work = nw, low_work = lw,
               inner_environ = ce\<rparr>, h_priority = Normal, callback_instance = None\<rparr>\<rparr>,
          w\<lparr>wlog := wlog w @
             [CreateThreadpoolWork high_queue (with_priority p High ce),
              CreateThreadpoolWork normal_queue (with_priority p Normal ce),
              CreateThreadpoolWork low_queue (with_priority p Low ce)] @
             (if net b then [WSAStartup 0x0202] else [])\<rparr>)"
  | (failed) e made where
      "run_state (build_works p b pool ce) w = (Err e, w\<lparr>wlog := wlog w @ made\<rparr>)"
      "count_list made (CloseThreadpool pool) = 2"
      "\<exists>q ce'. CreateThreadpoolWork q ce' \<in> set made"
      "\<exists>pre. made = pre @ close_calls ce"
proof -
  let ?c1 = "CreateThreadpoolWork high_queue (with_priority p High ce)"
  let ?c2 = "CreateThreadpoolWork normal_queue (with_priority p Normal ce)"
  let ?c3 = "CreateThreadpoolWork low_queue (with_priority p Low ce)"
  note defs = build_works_def Let_def handle_inner_drop_def run_simps failed_work_calls_def
    close_calls_def
  show ?thesis
  proof (cases rule: create_work_cases [of p High high_queue ce w])
    case (failed e)
    show ?thesis
      by (rule that(2) [of e "failed_work_calls p High high_queue ce @ close_calls ce"])
        (use failed assms in \<open>auto simp: defs\<close>)
  next
    case (created hw)
    note 1 = this
    let ?w1 = "w\<lparr>wlog := wlog w @ [?c1]\<rparr>"
    show ?thesis
    proof (cases rule: create_work_cases [of p Normal normal_queue ce ?w1])
      case (failed e)
      show ?thesis
        by (rule that(2) [of e "?c1 # failed_work_calls p Normal normal_queue ce @ close_calls ce"])
          (use 1 failed assms in \<open>auto simp: defs\<close>)
    next
      case (created nw)
      note 2 = this
      let ?w2 = "w\<lparr>wlog := wlog w @ [?c1, ?c2]\<rparr>"
      show ?thesis
      proof (cases rule: create_work_cases [of p Low low_queue ce ?w2])
        case (failed e)
        show ?thesis
          by (rule that(2) [of e "?c1 # ?c2 # failed_work_calls p Low low_queue ce @ close_calls ce"])
            (use 1 2 failed assms in \<open>auto simp: defs\<close>)
      next
        case (created lw)
        note 3 = this
        let ?ret = "win p (wlog w @ [?c1, ?c2, ?c3]) (WSAStartup 0x0202)"
        show ?thesis
        proof (cases "net b \<and> ?ret \<noteq> 0")
          case True
          show ?thesis
            by (rule that(2) [of "Os ?ret"
                  "[?c1, ?c2, ?c3, WSAStartup 0x0202, CloseThreadpool pool] @ close_calls ce"])
              (use 1 2 3 True assms in \<open>auto simp: defs\<close>)
        next
          case False
          show ?thesis
            by (rule that(1) [of hw nw lw]) (use 1 2 3 False in \<open>auto simp: defs\<close>)
        qed
      qed
    qed
  qed
qed

text \<open>The four ways \<open>build\<close> ends.\<close>

definition base_environ :: "platform \<Rightarrow> ptr \<Rightarrow> ptr \<Rightarrow> tp_environ" where
  "base_environ p pool cg =
     \<lparr>Version = 3, Pool = pool, CleanupGroup = cg, RaceDll = 0, ActivationContext = 0,
      CallbackPriority = c_PRIORITY_NORMAL p, Size = sizeof_environ p\<rparr>"

definition setup_calls :: "builder \<Rightarrow> ptr \<Rightarrow> call list" where
  "setup_calls b pool =
     [CreateThreadpool, SetThreadpoolThreadMaximum pool (max_threads b),
      SetThreadpoolThreadMinimum pool (min_threads b)]"

definition work_calls :: "platform \<Rightarrow> tp_environ \<Rightarrow> call list" where
  "work_calls p ce =
     [CreateThreadpoolWork high_queue (with_priority p High ce),
      CreateThreadpoolWork normal_queue (with_priority p Normal ce),
      CreateThreadpoolWork low_queue (with_priority p Low ce)]"

lemma build_cases:
  obtains (built) pool cg hw nw lw where "pool = win p (wlog w) CreateThreadpool"
      "pool \<noteq> 0" "cg \<noteq> 0" "hw \<noteq> 0" "nw \<noteq> 0" "lw \<noteq> 0"
      "run_state (build p b) w =
         (Ok \<lparr>pool_handle = \<lparr>inner = \<lparr>high_work = hw, normal_work = nw, low_work = lw,
               inner_environ = base_environ p pool cg\<rparr>,
               h_priority = Normal, callback_instance = None\<rparr>\<rparr>,
          w\<lparr>wlog := wlog w @ setup_calls b pool @ [CreateThreadpoolCleanupGroup] @
             work_calls p (base_environ p pool cg) @
             (if net b then [WSAStartup 0x0202] else [])\<rparr>)"
  | (no_pool) e where "win p (wlog w) CreateThreadpool = 0"
      "run_state (build p b) w = (Err e, w\<lparr>wlog := wlog w @ [CreateThreadpool, GetLastError]\<rparr>)"
  | (early) pool e made where "pool = win p (wlog w) CreateThreadpool" "pool \<noteq> 0"
      "made = [] \<or> made = [CreateThreadpoolCleanupGroup]"
      "run_state (build p b) w =
         (Err e, w\<lparr>wlog := wlog w @ setup_calls b pool @ made @ [CloseThreadpool pool, GetLastError]\<rparr>)"
  | (late) pool cg e made where "pool = win p (wlog w) CreateThreadpool" "pool \<noteq> 0"
      "count_list made (CloseThreadpool pool) = 2" "\<exists>q ce'. CreateThreadpoolWork q ce' \<in> set made"
      "\<exists>pre. made = pre @ close_calls (base_environ p pool cg)"
      "run_state (build p b) w =
         (Err e, w\<lparr>wlog := wlog w @ setup_calls b pool @ CreateThreadpoolCleanupGroup # made\<rparr>)"
proof -
  define pool where "pool = win p (wlog w) CreateThreadpool"
  let ?l = "wlog w @ setup_calls b pool"
  let ?r = "win p (wlog w @ [CreateThreadpool, SetThreadpoolThreadMaximum pool (max_threads b)])
    (SetThreadpoolThreadMinimum pool (min_threads b))"
  define cg where "cg = win p ?l CreateThreadpoolCleanupGroup"
  note defs = build_def run_simps setup_calls_def pool_def [symmetric]
  show ?thesis
  proof (cases "pool = 0")
    case True
    then show ?thesis
      by (intro no_pool [of "Os (win p (wlog w @ [CreateThreadpool]) GetLastError)"])
        (auto simp: defs)
  next
    case pool: False
    show ?thesis
    proof (cases "?r = c_FALSE p")
      case True
      with pool show ?thesis
        by (intro early [OF pool_def, of "[]" "Os (win p (?l @ [CloseThreadpool pool]) GetLastError)"])
          (auto simp: defs)
    next
      case r: False
      show ?thesis
      proof (cases "cg = 0")
        case True
        with pool r show ?thesis
          by (intro early [OF pool_def, of "[CreateThreadpoolCleanupGroup]"
                "Os (win p (?l @ [CreateThreadpoolCleanupGroup, CloseThreadpool pool]) GetLastError)"])
            (auto simp: defs cg_def)
      next
        case cg: False
        let ?ce = "base_environ p pool cg"
        let ?w = "w\<lparr>wlog := ?l @ [CreateThreadpoolCleanupGroup]\<rparr>"
        have run: "run_state (build p b) w = run_state (build_works p b pool ?ce) ?w"
          using pool r cg
          by (simp add: defs cg_def base_environ_def priority_default_def)
        have "Pool ?ce = pool" by (simp add: base_environ_def)
        then show ?thesis
        proof (cases rule: build_works_cases [of ?ce pool p b ?w, case_names built failed])
          case (built hw nw lw)
          show ?thesis
            by (rule that(1) [OF pool_def pool cg built(1-3)])
              (use built(4) run in \<open>simp add: work_calls_def\<close>)
        next
          case (failed e made)
          show ?thesis
            by (rule late [OF pool_def pool failed(2-4)]) (use failed(1) run in simp)
        qed
      qed
    qed
  qed
qed

section \<open>Properties\<close>

text \<open>
  Property: a successful \<open>build\<close> made exactly the calls of the source in its order (pool,
  thread bounds, cleanup group, the three work items each created with its own priority,
  Winsock when enabled), closed nothing, and returns a handle of normal priority, with no
  callback instance, whose environment names the new pool and cleanup group and whose three
  work items are not null.
\<close>

theorem build_success:
  assumes "run_state (build p b) w = (Ok tp, w')"
  shows "\<exists>pool cg hw nw lw. pool \<noteq> 0 \<and> cg \<noteq> 0 \<and> hw \<noteq> 0 \<and> nw \<noteq> 0 \<and> lw \<noteq> 0 \<and>
    tp = \<lparr>pool_handle = \<lparr>inner = \<lparr>high_work = hw, normal_work = nw, low_work = lw,
            inner_environ = base_environ p pool cg\<rparr>,
            h_priority = Normal, callback_instance = None\<rparr>\<rparr> \<and>
    w' = w\<lparr>wlog := wlog w @ setup_calls b pool @ [CreateThreadpoolCleanupGroup] @
       work_calls p (base_environ p pool cg) @ (if net b then [WSAStartup 0x0202] else [])\<rparr>"
  by (cases rule: build_cases [of p w b]) (use assms in auto)

theorem build_success_witness:
  "\<exists>pool cg hw nw lw. pool \<noteq> 0 \<and> cg \<noteq> 0 \<and> hw \<noteq> 0 \<and> nw \<noteq> 0 \<and> lw \<noteq> 0 \<and>
    \<lparr>pool_handle = \<lparr>inner = \<lparr>high_work = 7, normal_work = 7, low_work = 7,
        inner_environ = base_environ (sample_platform (\<lambda>c. 7)) 7 7\<rparr>,
        h_priority = Normal, callback_instance = None\<rparr>\<rparr> =
    \<lparr>pool_handle = \<lparr>inner = \<lparr>high_work = hw, normal_work = nw, low_work = lw,
        inner_environ = base_environ (sample_platform (\<lambda>c. 7)) pool cg\<rparr>,
        h_priority = Normal, callback_instance = None\<rparr>\<rparr> \<and>
    snd (run_state (build (sample_platform (\<lambda>c. 7)) \<lparr>max_threads = 4, min_threads = 2, net = False\<rparr>)
       (\<lparr>wlog = [], wctx = None\<rparr> :: handle world)) =
    \<lparr>wlog = setup_calls \<lparr>max_threads = 4, min_threads = 2, net = False\<rparr> pool @
       [CreateThreadpoolCleanupGroup] @
       work_calls (sample_platform (\<lambda>c. 7)) (base_environ (sample_platform (\<lambda>c. 7)) pool cg),
     wctx = None\<rparr>"
proof -
  let ?p = "sample_platform (\<lambda>c. 7)"
  let ?b = "\<lparr>max_threads = 4, min_threads = 2, net = False\<rparr>"
  let ?w = "\<lparr>wlog = [], wctx = None\<rparr> :: handle world"
  let ?tp = "\<lparr>pool_handle = \<lparr>inner = \<lparr>high_work = 7, normal_work = 7, low_work = 7,
        inner_environ = base_environ ?p 7 7\<rparr>, h_priority = Normal, callback_instance = None\<rparr>\<rparr>"
  have "run_state (build ?p ?b) ?w = (Ok ?tp, snd (run_state (build ?p ?b) ?w))"
    by (simp add: build_def build_works_def create_work_def qmark_drop_def run_simps Let_def
        base_environ_def priority_default_def)
  from build_success [OF this] show ?thesis by simp
qed

text \<open>
  Property C32: on every platform, the number of times \<open>build\<close> closes the pool it created: never
  on success or when there is no pool, once when a thread bound or the cleanup group fails,
  but twice when a work item or Winsock fails, because \<open>create_work\<close> (or the Winsock branch)
  closes the pool and dropping the \<open>Arc<HandleInner>\<close> closes it again.
\<close>

theorem build_close_count:
  "count_list (calls_of (build p b) w) (CloseThreadpool (win p (wlog w) CreateThreadpool)) =
     (case fst (run_state (build p b) w) of
        Ok _ \<Rightarrow> 0
      | _ \<Rightarrow> if win p (wlog w) CreateThreadpool = 0 then 0
             else if \<exists>q ce. CreateThreadpoolWork q ce \<in> set (calls_of (build p b) w) then 2
             else 1)"
  by (cases rule: build_cases [of p w b])
    (auto simp: calls_of_def setup_calls_def work_calls_def)

text \<open>
  Property: the setters of the builder reach the system exchanged. After
  \<open>min_threads(mn)\<close> and \<open>max_threads(mx)\<close>, \<open>build\<close> asks for a maximum of \<open>mn\<close> threads and
  a minimum of \<open>mx\<close>.
\<close>

theorem builder_bounds_exchanged:
  assumes "win p (wlog w) CreateThreadpool \<noteq> 0"
  shows "let pool = win p (wlog w) CreateThreadpool;
             b' = builder_max_threads (builder_min_threads b mn) mx
         in take 3 (calls_of (build p b') w) =
              [CreateThreadpool, SetThreadpoolThreadMaximum pool mn,
               SetThreadpoolThreadMinimum pool mx]"
proof -
  let ?b = "builder_max_threads (builder_min_threads b mn) mx"
  have "max_threads ?b = mn" "min_threads ?b = mx"
    by (simp_all add: builder_max_threads_def builder_min_threads_def)
  then show ?thesis
    by (cases rule: build_cases [of p w ?b])
      (use assms in \<open>auto simp: calls_of_def setup_calls_def Let_def\<close>)
qed

theorem builder_bounds_exchanged_witness:
  "take 3 (calls_of (build (sample_platform (\<lambda>c. 7))
        (builder_max_threads (builder_min_threads \<lparr>max_threads = 512, min_threads = 8, net = True\<rparr> 2) 16))
      (\<lparr>wlog = [], wctx = None\<rparr> :: handle world)) =
    [CreateThreadpool, SetThreadpoolThreadMaximum 7 2, SetThreadpoolThreadMinimum 7 16]"
  using builder_bounds_exchanged [of "sample_platform (\<lambda>c. 7)"
      "\<lparr>wlog = [], wctx = None\<rparr> :: handle world" "\<lparr>max_threads = 512, min_threads = 8, net = True\<rparr>" 2 16]
  by simp

text \<open>
  Property: with the documented header constants, the comparison of priorities is the
  linear order \<open>Low < Normal < High\<close>: the numeric order of the constants, reversed.
\<close>

theorem priority_cmp_linear:
  assumes "priority_consts p"
  shows "priority_cmp p a b = (if a < b then Less else if a = b then Equal else Greater) \<and>
    Low < Normal \<and> Normal < High"
  using priority_cmp_values [OF assms] by (auto simp: less_priority_def)

theorem priority_cmp_linear_witness:
  "priority_cmp (sample_platform (\<lambda>c. 0)) High Low = Greater"
  using priority_cmp_linear [of "sample_platform (\<lambda>c. 0)" High Low]
  by (simp add: less_priority_def)

end
