(* ===== verification/Context.thy ===== *)
theory Context
  imports Threadpool
begin

text \<open>
  \<open>src/context.rs\<close>: the thread-local \<open>HANDLE\<close>, entering a handle and leaving it through the
  guard; and \<open>may_block\<close> of \<open>src/task/util.rs\<close>, which consults the current handle. The
  thread-local is the field \<open>wctx\<close> of the world.
\<close>

section \<open>Operations\<close>

record context_guard =
  previous :: "handle option"

definition try_current :: "('z wae, handle option) state" where
  "try_current = State (\<lambda>w. (wctx w, w))"

definition current :: "('z wae, handle res) state" where
  "current = do {
     h \<leftarrow> try_current;
     State_Monad.return
       (case h of Some h \<Rightarrow> Ok h | None \<Rightarrow> Fault (Panicked ''no wae context'')) }"

text \<open>The free function \<open>current\<close>.\<close>

definition context_current :: "('z wae, handle res) state" where
  "context_current = current"

text \<open>\<open>RefCell::replace\<close> hands the old content to the guard.\<close>

definition enter :: "handle \<Rightarrow> ('z wae, context_guard) state" where
  "enter self = State (\<lambda>w. (\<lparr>previous = wctx w\<rparr>, w\<lparr>wctx := Some self\<rparr>))"

definition context_guard_drop :: "context_guard \<Rightarrow> ('z wae, unit) state" where
  "context_guard_drop self = State (\<lambda>w. ((), w\<lparr>wctx := previous self\<rparr>))"

definition handle_may_block :: "platform \<Rightarrow> handle \<Rightarrow> ('z wae, bool) state" where
  "handle_may_block p self =
     (case callback_instance self of
        Some instance \<Rightarrow> do { r \<leftarrow> sys p (CallbackMayRunLong instance); State_Monad.return (r = c_TRUE p) }
      | None \<Rightarrow> State_Monad.return False)"

definition may_block :: "platform \<Rightarrow> ('z wae, bool res) state" where
  "may_block p = qmark current (\<lambda>h. do { b \<leftarrow> handle_may_block p h; State_Monad.return (Ok b) })"

text \<open>\<open>Handle::try_current().map(|h| h.may_block())\<close>, before a wait.\<close>

definition notify_may_block :: "platform \<Rightarrow> ('z wae, unit) state" where
  "notify_may_block p = do {
     h \<leftarrow> try_current;
     case h of
       Some h \<Rightarrow> do { _ \<leftarrow> handle_may_block p h; State_Monad.return () }
     | None \<Rightarrow> State_Monad.return () }"

text \<open>A block that enters a handle, runs its body and drops the guard at its end.\<close>

definition in_context :: "handle \<Rightarrow> ('z wae, 'a) state \<Rightarrow> ('z wae, 'a) state" where
  "in_context h body = do {
     g \<leftarrow> enter h;
     r \<leftarrow> body;
     _ \<leftarrow> context_guard_drop g;
     State_Monad.return r }"

section \<open>Scopes\<close>

lemma run_try_current [run_simps]: "run_state try_current w = (wctx w, w)"
  by (simp add: try_current_def)

lemma run_current [run_simps]:
  "run_state current w =
     (case wctx w of Some h \<Rightarrow> Ok h | None \<Rightarrow> Fault (Panicked ''no wae context''), w)"
  by (simp add: current_def run_simps)

lemma run_enter [run_simps]:
  "run_state (enter h) w = (\<lparr>previous = wctx w\<rparr>, w\<lparr>wctx := Some h\<rparr>)"
  by (simp add: enter_def)

lemma run_context_guard_drop [run_simps]:
  "run_state (context_guard_drop g) w = ((), w\<lparr>wctx := previous g\<rparr>)"
  by (simp add: context_guard_drop_def)

text \<open>What the announcement of a wait adds to the log.\<close>

definition notify_calls :: "'z wae \<Rightarrow> call list" where
  "notify_calls w =
     (case wctx w of
        None \<Rightarrow> []
      | Some h \<Rightarrow> (case callback_instance h of None \<Rightarrow> [] | Some i \<Rightarrow> [CallbackMayRunLong i]))"

lemma run_notify_may_block [run_simps]:
  "run_state (notify_may_block p) w = ((), w\<lparr>wlog := wlog w @ notify_calls w\<rparr>)"
  by (simp add: notify_may_block_def handle_may_block_def notify_calls_def run_simps
      split: option.split)

text \<open>
  Code that leaves the context as it found it. The locale is the contract between a scope
  and its body: the body may enter and leave other handles as it likes, as long as it is
  neutral itself.
\<close>

definition ctx_neutral :: "('z wae, 'a) state \<Rightarrow> bool" where
  "ctx_neutral m \<longleftrightarrow> (\<forall>w. wctx (snd (run_state m w)) = wctx w)"

lemma ctx_neutralI [intro]:
  "(\<And>w. wctx (snd (run_state m w)) = wctx w) \<Longrightarrow> ctx_neutral m"
  by (simp add: ctx_neutral_def)

lemma ctx_neutralD: "ctx_neutral m \<Longrightarrow> wctx (snd (run_state m w)) = wctx w"
  by (simp add: ctx_neutral_def)

lemma ctx_neutral_return [simp]: "ctx_neutral (State_Monad.return x)"
  by (simp add: ctx_neutral_def)

lemma ctx_neutral_sys [simp]: "ctx_neutral (sys p c)" "ctx_neutral (sys_out p c)"
  by (simp_all add: ctx_neutral_def run_simps)

lemma ctx_neutral_fail_last [simp]: "ctx_neutral (fail_last p)"
  by (simp add: ctx_neutral_def run_simps)

lemma ctx_neutral_bind [intro]:
  assumes "ctx_neutral m" and "\<And>x. ctx_neutral (f x)"
  shows "ctx_neutral (State_Monad.bind m f)"
proof
  fix w
  obtain x w1 where 1: "run_state m w = (x, w1)" by (cases "run_state m w")
  then have "wctx w1 = wctx w" using ctx_neutralD [OF assms(1), of w] by simp
  moreover have "wctx (snd (run_state (f x) w1)) = wctx w1" by (rule ctx_neutralD [OF assms(2)])
  ultimately show "wctx (snd (run_state (State_Monad.bind m f) w)) = wctx w"
    using 1 by simp
qed

lemma ctx_neutral_may_block [simp]: "ctx_neutral (handle_may_block p h)"
  unfolding handle_may_block_def
  by (cases "callback_instance h") (auto intro!: ctx_neutral_bind)

lemma ctx_neutral_notify [simp]: "ctx_neutral (notify_may_block p)"
  by (simp add: ctx_neutral_def run_simps)

lemma run_in_context:
  "run_state (in_context h body) w =
     (case run_state body (w\<lparr>wctx := Some h\<rparr>) of (r, w') \<Rightarrow> (r, w'\<lparr>wctx := wctx w\<rparr>))"
  by (simp add: in_context_def run_simps split: prod.split)

lemma ctx_neutral_in_context [simp]: "ctx_neutral (in_context h body)"
  by (auto simp: ctx_neutral_def run_in_context split: prod.split)

text \<open>Nested scopes: \<open>enters\<close> enters a list of handles and returns the guards, innermost first.\<close>

fun enters :: "handle list \<Rightarrow> ('z wae, context_guard list) state" where
  "enters [] = State_Monad.return []"
| "enters (h # hs) = do {
     g \<leftarrow> enter h;
     gs \<leftarrow> enters hs;
     State_Monad.return (gs @ [g]) }"

fun drop_guards :: "context_guard list \<Rightarrow> ('z wae, unit) state" where
  "drop_guards [] = State_Monad.return ()"
| "drop_guards (g # gs) = do { _ \<leftarrow> context_guard_drop g; drop_guards gs }"

lemma run_drop_guards_append:
  "run_state (drop_guards (gs @ gs')) w = run_state (drop_guards gs') (snd (run_state (drop_guards gs) w))"
  by (induction gs arbitrary: w) (simp_all add: run_simps)

text \<open>The guards \<open>enters\<close> returns, and the context it leaves.\<close>

fun guards_of :: "handle option \<Rightarrow> handle list \<Rightarrow> context_guard list" where
  "guards_of prev [] = []"
| "guards_of prev (h # hs) = guards_of (Some h) hs @ [\<lparr>previous = prev\<rparr>]"

fun entered :: "handle option \<Rightarrow> handle list \<Rightarrow> handle option" where
  "entered prev [] = prev"
| "entered prev (h # hs) = entered (Some h) hs"

lemma entered_last: "hs \<noteq> [] \<Longrightarrow> entered prev hs = Some (last hs)"
  by (induction prev hs rule: entered.induct) (auto simp: neq_Nil_conv)

lemma run_enters:
  "run_state (enters hs) w = (guards_of (wctx w) hs, w\<lparr>wctx := entered (wctx w) hs\<rparr>)"
  by (induction hs arbitrary: w) (simp_all add: run_simps)

lemma run_drop_guards_of:
  "hs \<noteq> [] \<Longrightarrow> snd (run_state (drop_guards (guards_of prev hs)) v) = v\<lparr>wctx := prev\<rparr>"
proof (induction prev hs arbitrary: v rule: guards_of.induct)
  case (2 prev h hs)
  then show ?case
    by (cases "hs = []") (simp_all add: run_drop_guards_append run_simps)
qed simp

section \<open>Properties\<close>

text \<open>
  Property: entering any sequence of handles makes the last one current, and dropping the
  guards in the reverse order gives back the context there was before, whatever ran in
  between on the rest of the world.
\<close>

theorem enter_drop_restores:
  fixes v w :: "'z wae"
  assumes "hs \<noteq> []" and "run_state (enters hs) w = (gs, w1)"
  shows "fst (run_state current w1) = Ok (last hs) \<and>
    wctx (snd (run_state (drop_guards gs) v)) = wctx w"
  using assms by (auto simp: run_simps run_enters run_drop_guards_of entered_last)

theorem enter_drop_restores_witness:
  "let h = \<lparr>inner = \<lparr>high_work = 1, normal_work = 2, low_work = 3, inner_environ =
          \<lparr>Version = 3, Pool = 4, CleanupGroup = 5, RaceDll = 0, ActivationContext = 0,
           CallbackPriority = 1, Size = 72\<rparr>\<rparr>, h_priority = Normal, callback_instance = None\<rparr>;
       h' = set_priority h High
   in fst (run_state current \<lparr>wlog = [], wctx = Some h'\<rparr>) = Ok h' \<and>
      wctx (snd (run_state (drop_guards [\<lparr>previous = Some h\<rparr>, \<lparr>previous = None\<rparr>])
         \<lparr>wlog = [CreateEventW], wctx = Some h'\<rparr>)) = None"
proof -
  let ?h = "\<lparr>inner = \<lparr>high_work = 1, normal_work = 2, low_work = 3, inner_environ =
          \<lparr>Version = 3, Pool = 4, CleanupGroup = 5, RaceDll = 0, ActivationContext = 0,
           CallbackPriority = 1, Size = 72\<rparr>\<rparr>, h_priority = Normal, callback_instance = None\<rparr>"
  let ?w = "\<lparr>wlog = [], wctx = None\<rparr> :: handle world"
  have "run_state (enters [?h, set_priority ?h High]) ?w =
      ([\<lparr>previous = Some ?h\<rparr>, \<lparr>previous = None\<rparr>], \<lparr>wlog = [], wctx = Some (set_priority ?h High)\<rparr>)"
    by (simp add: run_simps)
  from enter_drop_restores [OF _ this, of "\<lparr>wlog = [CreateEventW], wctx = Some (set_priority ?h High)\<rparr>"]
  show ?thesis by (simp add: Let_def)
qed

end
