(* ===== verification/Executor.thy ===== *)
theory Executor
  imports Context "HOL-Library.Multiset"
begin

text \<open>
  \<open>push_task\<close> of \<open>src/threadpool.rs\<close> and \<open>src/task/spawn.rs\<close>: tasks go into one of three
  queues, each push submits one work item to the Win32 pool, and each work callback pops one
  task and runs it with its handle as the current context.

  The queue (crate \<open>concurrent-queue\<close>) and the tasks (crate \<open>async-task\<close>) are external: a
  queue is the list of the operations performed on it, and a record \<open>cq_ops\<close> of functions of
  that history answers \<open>push\<close> and \<open>pop\<close>; a runnable is an identity, and running it a
  parameter. After the two handlers, the step relation \<open>pool_step\<close> interleaves any number
  of pushing threads and callbacks.
\<close>

section \<open>Queues\<close>

type_synonym runnable = nat
type_synonym item = "runnable \<times> handle"

datatype cq_op = Push item | Pop

type_synonym cqueue = "cq_op list"

record cq_ops =
  cq_push_ok :: "cqueue \<Rightarrow> bool"
  cq_pop :: "cqueue \<Rightarrow> item option"

text \<open>
  The documented behaviour of an unbounded queue: it is a first-in first-out queue, and a
  push fails only on a closed queue, which this crate never makes. \<open>contents\<close> replays a history.
\<close>

fun replay :: "cq_op \<Rightarrow> item list \<Rightarrow> item list" where
  "replay (Push x) xs = xs @ [x]"
| "replay Pop xs = tl xs"

definition contents :: "cqueue \<Rightarrow> item list" where
  "contents h = fold replay h []"

definition queue_law :: "cq_ops \<Rightarrow> bool" where
  "queue_law cq \<longleftrightarrow>
     (\<forall>h. cq_push_ok cq h) \<and>
     (\<forall>h. cq_pop cq h = (case contents h of [] \<Rightarrow> None | x # _ \<Rightarrow> Some x))"

lemma contents_snoc [simp]:
  "contents [] = []" "contents (h @ [Push x]) = contents h @ [x]"
  "contents (h @ [Pop]) = tl (contents h)"
  by (simp_all add: contents_def)

definition fifo_queue :: cq_ops where
  "fifo_queue = \<lparr>cq_push_ok = (\<lambda>_. True),
     cq_pop = (\<lambda>h. case contents h of [] \<Rightarrow> None | x # _ \<Rightarrow> Some x)\<rparr>"

lemma fifo_queue_law [simp]: "queue_law fifo_queue"
  by (simp add: queue_law_def fifo_queue_def)

section \<open>The handlers\<close>

record ex_world = "handle world" +
  queues :: "queue_id \<Rightarrow> cqueue"

fun queue_of :: "priority \<Rightarrow> queue_id" where
  "queue_of High = high_queue"
| "queue_of Normal = normal_queue"
| "queue_of Low = low_queue"

fun work_of :: "handle_inner \<Rightarrow> queue_id \<Rightarrow> ptr" where
  "work_of i high_queue = high_work i"
| "work_of i normal_queue = normal_work i"
| "work_of i low_queue = low_work i"

definition queue_push :: "cq_ops \<Rightarrow> queue_id \<Rightarrow> item \<Rightarrow> (ex_world, bool) state" where
  "queue_push cq q x = State (\<lambda>w. (cq_push_ok cq (queues w q),
     w\<lparr>queues := (queues w)(q := queues w q @ [Push x])\<rparr>))"

definition queue_pop :: "cq_ops \<Rightarrow> queue_id \<Rightarrow> (ex_world, item option) state" where
  "queue_pop cq q = State (\<lambda>w. (cq_pop cq (queues w q),
     w\<lparr>queues := (queues w)(q := queues w q @ [Pop])\<rparr>))"

definition push_task :: "platform \<Rightarrow> cq_ops \<Rightarrow> handle \<Rightarrow> runnable \<Rightarrow> (ex_world, unit res) state" where
  "push_task p cq self runnable =
     (let queue = queue_of (h_priority self) in do {
       ok \<leftarrow> queue_push cq queue (runnable, self);
       if \<not> ok then State_Monad.return (Fault (Panicked ''push on a closed queue''))
       else do {
         _ \<leftarrow> sys p (SubmitThreadpoolWork (work_of (inner self) queue));
         State_Monad.return (Ok ())
       } })"

text \<open>\<open>catch_unwind(..).ok()\<close>: a panic of the task stops at the callback.\<close>

fun catch_unwind :: "unit res \<Rightarrow> unit res" where
  "catch_unwind (Fault (Panicked _)) = Ok ()"
| "catch_unwind (Fault (Undefined m)) = Fault (Undefined m)"
| "catch_unwind (Err e) = Ok ()"
| "catch_unwind (Ok x) = Ok ()"

definition callback ::
  "cq_ops \<Rightarrow> (runnable \<Rightarrow> (ex_world, unit res) state) \<Rightarrow> ptr \<Rightarrow> queue_id \<Rightarrow> (ex_world, unit res) state"
  where
  "callback cq run_task instance context = do {
     popped \<leftarrow> queue_pop cq context;
     case popped of
       None \<Rightarrow> State_Monad.return (Fault (Panicked ''pop on an empty queue''))
     | Some (runnable, handle) \<Rightarrow>
         (let handle = handle\<lparr>callback_instance := Some instance\<rparr> in
          in_context handle (do {
            r \<leftarrow> run_task runnable;
            State_Monad.return (catch_unwind r) })) }"

text \<open>\<open>Handle::spawn\<close>: \<open>async_task::spawn\<close> gives a runnable whose schedule function is
  \<open>push_task\<close> on a clone of the handle; it is scheduled once.\<close>

text \<open>
  \<open>JoinHandle\<close> holds the task in a \<open>ManuallyDrop\<close>. \<open>jh_taken\<close> says that the task has been moved
  out of it, which the program does not record: moving it out again is undefined behaviour.
\<close>

record join_handle =
  jh_task :: runnable
  jh_taken :: bool

definition handle_spawn ::
  "platform \<Rightarrow> cq_ops \<Rightarrow> handle \<Rightarrow> runnable \<Rightarrow> (ex_world, join_handle res) state" where
  "handle_spawn p cq self new_task =
     qmark (push_task p cq self new_task) (\<lambda>_. State_Monad.return (Ok \<lparr>jh_task = new_task, jh_taken = False\<rparr>))"

definition spawn :: "platform \<Rightarrow> cq_ops \<Rightarrow> runnable \<Rightarrow> (ex_world, join_handle res) state" where
  "spawn p cq new_task = qmark current (\<lambda>h. handle_spawn p cq h new_task)"

section \<open>Join handles\<close>

text \<open>The operations of \<open>async_task::Task\<close> that \<open>JoinHandle\<close> calls.\<close>

record ('s, 'r) task_ops =
  task_poll :: "runnable \<Rightarrow> waker \<Rightarrow> ('s, 'r poll) state"
  task_cancel :: "runnable \<Rightarrow> ('s, 'r option poll) state" \<comment> \<open>a poll of the future \<open>Task::cancel\<close> returns\<close>
  task_detach :: "runnable \<Rightarrow> ('s, unit) state"

definition manually_drop_take :: "join_handle \<Rightarrow> runnable res \<times> join_handle" where
  "manually_drop_take self =
     (if jh_taken self then (Fault (Undefined ''ManuallyDrop::take of a moved value''), self)
      else (Ok (jh_task self), self\<lparr>jh_taken := True\<rparr>))"

definition join_handle_poll :: "('s, 'r) task_ops \<Rightarrow> join_handle \<Rightarrow> waker \<Rightarrow> ('s, 'r poll) state" where
  "join_handle_poll ops self cx = task_poll ops (jh_task self) cx"

definition join_handle_drop :: "('s, 'r) task_ops \<Rightarrow> join_handle \<Rightarrow> ('s, unit res) state" where
  "join_handle_drop ops self =
     (case fst (manually_drop_take self) of
        Ok task \<Rightarrow> do { _ \<leftarrow> task_detach ops task; State_Monad.return (Ok ()) }
      | Err e \<Rightarrow> State_Monad.return (Err e)
      | Fault f \<Rightarrow> State_Monad.return (Fault f))"

text \<open>A future that is polled a number of times: its output, or \<open>None\<close> if it is still pending.\<close>

primrec poll_times :: "nat \<Rightarrow> ('s, 'r poll) state \<Rightarrow> ('s, 'r option) state" where
  "poll_times 0 m = State_Monad.return None"
| "poll_times (Suc n) m = do {
     r \<leftarrow> m;
     case r of Ready x \<Rightarrow> State_Monad.return (Some x) | Pending \<Rightarrow> poll_times n m }"

text \<open>
  The future of \<open>JoinHandle::cancel\<close>, polled up to \<open>n\<close> times and then dropped if it is not ready:
  its local \<open>this\<close> is forgotten at the end of the body, and dropped with the future otherwise.
\<close>

definition join_handle_cancel :: "('s, 'r) task_ops \<Rightarrow> nat \<Rightarrow> join_handle \<Rightarrow> ('s, 'r option option res) state" where
  "join_handle_cancel ops n self =
     (let (task, this) = manually_drop_take self in
      case task of
        Ok task \<Rightarrow> do {
          output \<leftarrow> poll_times n (task_cancel ops task);
          case output of
            Some output \<Rightarrow> State_Monad.return (Ok (Some output))
          | None \<Rightarrow> qmark (join_handle_drop ops this) (\<lambda>_. State_Monad.return (Ok None)) }
      | Err e \<Rightarrow> State_Monad.return (Err e)
      | Fault f \<Rightarrow> State_Monad.return (Fault f))"

text \<open>
  Property: awaiting \<open>cancel\<close> to the end consumes the task once and detaches nothing; but a
  \<open>cancel\<close> that is dropped before the task has stopped moves the task out a second time.
\<close>

theorem join_handle_cancel_dropped_early:
  assumes "\<not> jh_taken self"
  shows "run_state (poll_times n (task_cancel ops (jh_task self))) s = (Some out, s') \<Longrightarrow>
      run_state (join_handle_cancel ops n self) s = (Ok (Some out), s')"
    and "run_state (poll_times n (task_cancel ops (jh_task self))) s = (None, s') \<Longrightarrow>
      run_state (join_handle_cancel ops n self) s =
        (Fault (Undefined ''ManuallyDrop::take of a moved value''), s')"
  using assms by (simp_all add: join_handle_cancel_def manually_drop_take_def join_handle_drop_def qmark_def)

section \<open>Running the handlers\<close>

lemma run_queue_push [run_simps]:
  "run_state (queue_push cq q x) w =
     (cq_push_ok cq (queues w q), w\<lparr>queues := (queues w)(q := queues w q @ [Push x])\<rparr>)"
  by (simp add: queue_push_def)

lemma run_queue_pop [run_simps]:
  "run_state (queue_pop cq q) w =
     (cq_pop cq (queues w q), w\<lparr>queues := (queues w)(q := queues w q @ [Pop])\<rparr>)"
  by (simp add: queue_pop_def)

lemma run_push_task:
  assumes "queue_law cq"
  shows "run_state (push_task p cq h r) w =
    (Ok (), w\<lparr>wlog := wlog w @ [SubmitThreadpoolWork (work_of (inner h) (queue_of (h_priority h)))],
        queues := (queues w)(queue_of (h_priority h) :=
           queues w (queue_of (h_priority h)) @ [Push (r, h)])\<rparr>)"
  using assms by (simp add: push_task_def run_simps queue_law_def Let_def)

lemma run_callback:
  assumes "cq_pop cq (queues w q) = Some (r, h)"
  shows "run_state (callback cq run_task inst q) w =
    (let (x, w') = run_state (run_task r)
           (w\<lparr>queues := (queues w)(q := queues w q @ [Pop]),
              wctx := Some (h\<lparr>callback_instance := Some inst\<rparr>)\<rparr>)
     in (catch_unwind x, w'\<lparr>wctx := wctx w\<rparr>))"
  using assms
  by (simp add: callback_def run_simps run_in_context Let_def split: prod.split)

section \<open>The pool as a transition system\<close>

text \<open>
  Any number of threads push, the system starts a callback for each submission (the
  documented contract of \<open>SubmitThreadpoolWork\<close>), callbacks pop. \<open>in_push\<close> counts the
  threads between the push and the submission of \<open>push_task\<close>, \<open>submitted\<close> the work the
  system has yet to start, \<open>in_cb\<close> the callbacks that have not popped yet, and \<open>in_run\<close> holds
  the tasks of the callbacks between \<open>queue.pop()\<close> and \<open>runnable.run()\<close>: several callbacks of one
  queue can be there, and the system schedules them in any order. \<open>pushed\<close>, \<open>taken\<close> and
  \<open>ran\<close> record what was pushed, popped and run, for the statements only.
\<close>

record pool_sys =
  qs :: "queue_id \<Rightarrow> cqueue"
  in_push :: "queue_id \<Rightarrow> nat"
  submitted :: "queue_id \<Rightarrow> nat"
  in_cb :: "queue_id \<Rightarrow> nat"
  in_run :: "queue_id \<Rightarrow> item multiset"
  pushed :: "queue_id \<Rightarrow> item list"
  taken :: "queue_id \<Rightarrow> item list"
  ran :: "queue_id \<Rightarrow> item list"
  panicked :: bool

definition pool_init :: pool_sys where
  "pool_init = \<lparr>qs = (\<lambda>_. []), in_push = (\<lambda>_. 0), submitted = (\<lambda>_. 0), in_cb = (\<lambda>_. 0),
     in_run = (\<lambda>_. {#}), pushed = (\<lambda>_. []), taken = (\<lambda>_. []), ran = (\<lambda>_. []), panicked = False\<rparr>"

definition bump :: "queue_id \<Rightarrow> (queue_id \<Rightarrow> nat) \<Rightarrow> (queue_id \<Rightarrow> nat)" where
  "bump q f = f(q := Suc (f q))"

definition drain :: "queue_id \<Rightarrow> (queue_id \<Rightarrow> nat) \<Rightarrow> (queue_id \<Rightarrow> nat)" where
  "drain q f = f(q := f q - 1)"

definition snoc :: "queue_id \<Rightarrow> 'a \<Rightarrow> (queue_id \<Rightarrow> 'a list) \<Rightarrow> (queue_id \<Rightarrow> 'a list)" where
  "snoc q x f = f(q := f q @ [x])"

text \<open>The steps that work off what has been pushed, without a new push.\<close>

inductive pool_work :: "cq_ops \<Rightarrow> pool_sys \<Rightarrow> pool_sys \<Rightarrow> bool" for cq where
  submit: "0 < in_push s q \<Longrightarrow>
    pool_work cq s (s\<lparr>in_push := drain q (in_push s), submitted := bump q (submitted s)\<rparr>)"
| start: "0 < submitted s q \<Longrightarrow>
    pool_work cq s (s\<lparr>submitted := drain q (submitted s), in_cb := bump q (in_cb s)\<rparr>)"
| pop: "0 < in_cb s q \<Longrightarrow> cq_pop cq (qs s q) = Some x \<Longrightarrow>
    pool_work cq s (s\<lparr>qs := snoc q Pop (qs s), in_cb := drain q (in_cb s),
       in_run := (in_run s)(q := add_mset x (in_run s q)), taken := snoc q x (taken s)\<rparr>)"
| run: "x \<in># in_run s q \<Longrightarrow>
    pool_work cq s (s\<lparr>in_run := (in_run s)(q := in_run s q - {#x#}), ran := snoc q x (ran s)\<rparr>)"
| pop_panic: "0 < in_cb s q \<Longrightarrow> cq_pop cq (qs s q) = None \<Longrightarrow>
    pool_work cq s (s\<lparr>qs := snoc q Pop (qs s), in_cb := drain q (in_cb s), panicked := True\<rparr>)"

inductive pool_step :: "cq_ops \<Rightarrow> pool_sys \<Rightarrow> pool_sys \<Rightarrow> bool" for cq where
  push: "q = queue_of (h_priority h) \<Longrightarrow> cq_push_ok cq (qs s q) \<Longrightarrow>
    pool_step cq s (s\<lparr>qs := snoc q (Push (r, h)) (qs s), in_push := bump q (in_push s),
       pushed := snoc q (r, h) (pushed s)\<rparr>)"
| push_panic: "q = queue_of (h_priority (h :: handle)) \<Longrightarrow> \<not> cq_push_ok cq (qs s q) \<Longrightarrow>
    pool_step cq s (s\<lparr>panicked := True\<rparr>)"
| work: "pool_work cq s t \<Longrightarrow> pool_step cq s t"

inductive pool_reachable :: "cq_ops \<Rightarrow> pool_sys \<Rightarrow> bool" for cq where
  init: "pool_reachable cq pool_init"
| step: "pool_reachable cq s \<Longrightarrow> pool_step cq s t \<Longrightarrow> pool_reachable cq t"

inductive_cases pool_workE: "pool_work cq s t"
inductive_cases pool_stepE: "pool_step cq s t"

section \<open>The invariant\<close>

text \<open>
  Per queue: one task for every push, submission or callback under way, the tasks popped
  so far followed by the tasks still queued are the tasks pushed, in order, and each task popped
  has been run or is held by one callback.
\<close>

definition pool_inv :: "pool_sys \<Rightarrow> bool" where
  "pool_inv s \<longleftrightarrow> \<not> panicked s \<and>
     (\<forall>q. length (contents (qs s q)) = in_push s q + submitted s q + in_cb s q \<and>
          taken s q @ contents (qs s q) = pushed s q \<and>
          mset (ran s q) + in_run s q = mset (taken s q))"

lemma pool_inv_init: "pool_inv pool_init"
  by (simp add: pool_inv_def pool_init_def)

lemma pool_invD:
  assumes "pool_inv s"
  shows "length (contents (qs s q)) = in_push s q + submitted s q + in_cb s q"
    and "taken s q @ contents (qs s q) = pushed s q" and "\<not> panicked s"
    and "mset (ran s q) + in_run s q = mset (taken s q)"
  using assms by (auto simp: pool_inv_def)

lemma pool_inv_pop:
  assumes "queue_law cq" and "pool_inv s" and "0 < in_cb s q"
  shows "\<exists>x xs. contents (qs s q) = x # xs \<and> cq_pop cq (qs s q) = Some x"
proof -
  have "contents (qs s q) \<noteq> []"
    using pool_invD(1) [OF assms(2), of q] assms(3) by auto
  then show ?thesis using assms(1) by (auto simp: queue_law_def neq_Nil_conv)
qed

lemma pool_work_inv:
  assumes "queue_law cq" and "pool_work cq s t" and "pool_inv s"
  shows "pool_inv t"
  using assms(2)
proof (cases rule: pool_work.cases)
  case (submit q)
  then show ?thesis using pool_invD [OF assms(3)] by (auto simp: pool_inv_def drain_def bump_def)
next
  case (start q)
  then show ?thesis using pool_invD [OF assms(3)] by (auto simp: pool_inv_def drain_def bump_def)
next
  case (pop q x)
  then obtain y ys where "contents (qs s q) = y # ys" "cq_pop cq (qs s q) = Some y"
    using pool_inv_pop assms(1,3) by blast
  then show ?thesis
    using pop pool_invD [OF assms(3)] pool_invD(1,2,4) [OF assms(3), of q]
    by (auto simp: pool_inv_def drain_def snoc_def)
next
  case (run x q)
  then have "add_mset x (mset (ran s q)) + (in_run s q - {#x#}) = mset (taken s q)"
    using pool_invD(4) [OF assms(3), of q] by (metis insert_DiffM union_mset_add_mset_left union_mset_add_mset_right)
  then show ?thesis
    using run pool_invD [OF assms(3)] by (auto simp: pool_inv_def snoc_def)
next
  case (pop_panic q)
  then show ?thesis using pool_inv_pop [OF assms(1,3), of q] by simp
qed

lemma pool_step_inv:
  assumes "queue_law cq" and "pool_step cq s t" and "pool_inv s"
  shows "pool_inv t"
  using assms(2)
proof (cases rule: pool_step.cases)
  case (push q h r)
  then show ?thesis using pool_invD [OF assms(3)] by (auto simp: pool_inv_def snoc_def bump_def)
next
  case (push_panic q h)
  then show ?thesis using assms(1) by (simp add: queue_law_def)
next
  case work
  then show ?thesis using pool_work_inv assms(1,3) by blast
qed

lemma pool_reachable_inv: "pool_reachable cq s \<Longrightarrow> queue_law cq \<Longrightarrow> pool_inv s"
  by (induction rule: pool_reachable.induct) (auto intro: pool_inv_init pool_step_inv)

text \<open>Work steps come to an end: each one moves a task closer to having been run.\<close>

definition todo :: "pool_sys \<Rightarrow> nat" where
  "todo s = (\<Sum>q\<in>{high_queue, normal_queue, low_queue}. 4 * in_push s q + 3 * submitted s q + 2 * in_cb s q + size (in_run s q))"

lemma todo_eq:
  "todo s = (4 * in_push s high_queue + 3 * submitted s high_queue + 2 * in_cb s high_queue + size (in_run s high_queue)) +
     (4 * in_push s normal_queue + 3 * submitted s normal_queue + 2 * in_cb s normal_queue + size (in_run s normal_queue)) +
     (4 * in_push s low_queue + 3 * submitted s low_queue + 2 * in_cb s low_queue + size (in_run s low_queue))"
  by (simp add: todo_def)

lemma pool_work_todo: "pool_work cq s t \<Longrightarrow> todo t < todo s"
proof (induction rule: pool_work.induct)
  case (submit s q)
  then show ?case by (cases q) (auto simp: todo_eq drain_def bump_def)
next
  case (start s q)
  then show ?case by (cases q) (auto simp: todo_eq drain_def bump_def)
next
  case (pop s q x)
  then show ?case by (cases q) (auto simp: todo_eq drain_def)
next
  case (run x s q)
  then have "size (in_run s q - {#x#}) < size (in_run s q)" by (rule size_Diff1_less)
  then show ?case by (cases q) (auto simp: todo_eq)
next
  case (pop_panic s q)
  then show ?case by (cases q) (auto simp: todo_eq drain_def)
qed

lemma pool_work_terminates: "wfp (\<lambda>t s. pool_work cq s t)"
  by (rule wfp_subset [OF wfp_if_convertible_to_nat [of "\<lambda>t s. todo t < todo s" todo]])
    (auto intro: pool_work_todo)

text \<open>Work steps push nothing, and where none is left every pushed task has been run.\<close>

lemma pool_work_pushed: "pool_work cq s t \<Longrightarrow> pushed t = pushed s"
  by (erule pool_workE) auto

lemma pool_work_progress:
  assumes "0 < in_push s q + submitted s q + in_cb s q \<or> in_run s q \<noteq> {#}"
  shows "\<exists>t. pool_work cq s t"
proof -
  consider "0 < in_push s q" | "0 < submitted s q" | "0 < in_cb s q" | x where "x \<in># in_run s q"
    using assms by fastforce
  then show ?thesis
  proof cases
    case 3
    then show ?thesis
      by (cases "cq_pop cq (qs s q)") (blast intro: pool_work.pop_panic pool_work.pop)+
  qed (blast intro: pool_work.submit pool_work.start pool_work.run)+
qed

lemma pool_quiescent:
  assumes "pool_inv s" and "\<nexists>t. pool_work cq s t"
  shows "taken s q = pushed s q" and "mset (ran s q) = mset (pushed s q)"
proof -
  have "in_push s q + submitted s q + in_cb s q = 0" and run: "in_run s q = {#}"
    using pool_work_progress [of s q cq] assms(2) by fastforce+
  then have "contents (qs s q) = []" using pool_invD(1) [OF assms(1), of q] by simp
  then show taken: "taken s q = pushed s q" using pool_invD(2) [OF assms(1), of q] by simp
  then show "mset (ran s q) = mset (pushed s q)" using pool_invD(4) [OF assms(1), of q] run by simp
qed

lemma pool_drains:
  assumes "queue_law cq" and "pool_inv s"
  shows "\<exists>t. (pool_work cq)\<^sup>*\<^sup>* s t \<and> pool_inv t \<and> pushed t = pushed s \<and> (\<nexists>u. pool_work cq t u)"
  using assms(2)
proof (induction "todo s" arbitrary: s rule: less_induct)
  case less
  show ?case
  proof (cases "\<exists>u. pool_work cq s u")
    case True
    then obtain u where u: "pool_work cq s u" by blast
    with less.prems have "pool_inv u" by (blast intro: pool_work_inv assms(1))
    with less.hyps [OF pool_work_todo [OF u]] pool_work_pushed [OF u]
    show ?thesis by (metis u converse_rtranclp_into_rtranclp)
  qed (use less.prems in blast)
qed

text \<open>
  Runs in which at most one callback of a queue at a time is between \<open>queue.pop()\<close> and
  \<open>runnable.run()\<close>, as in a pool of one thread.
\<close>

inductive pool_serial :: "cq_ops \<Rightarrow> queue_id \<Rightarrow> pool_sys \<Rightarrow> bool" for cq q where
  init: "pool_serial cq q pool_init"
| step: "pool_serial cq q s \<Longrightarrow> pool_step cq s t \<Longrightarrow> size (in_run t q) \<le> 1 \<Longrightarrow> pool_serial cq q t"

definition in_order :: "queue_id \<Rightarrow> pool_sys \<Rightarrow> bool" where
  "in_order q s \<longleftrightarrow> (\<exists>xs. in_run s q = mset xs \<and> length xs \<le> 1 \<and> ran s q @ xs = taken s q)"

lemma in_order_init: "in_order q pool_init"
  by (simp add: in_order_def pool_init_def)

lemma in_order_work:
  assumes "pool_work cq s t" and "in_order q s" and "size (in_run t q) \<le> 1"
  shows "in_order q t"
  using assms(1)
proof (cases rule: pool_work.cases)
  case (pop p x)
  then show ?thesis using assms(2,3) by (cases "p = q") (auto simp: in_order_def snoc_def)
next
  case (run x p)
  then show ?thesis
    using assms(2) by (cases "p = q") (auto simp: in_order_def snoc_def le_Suc_eq length_Suc_conv)
qed (use assms(2) in \<open>auto simp: in_order_def\<close>)

lemma pool_serial_in_order: "pool_serial cq q s \<Longrightarrow> in_order q s"
proof (induction rule: pool_serial.induct)
  case init
  show ?case by (rule in_order_init)
next
  case (step s t)
  show ?case
    using step(2)
  proof (cases rule: pool_step.cases)
    case work
    then show ?thesis using in_order_work step by blast
  qed (use step in \<open>auto simp: in_order_def\<close>)
qed

lemma pool_serial_reachable: "pool_serial cq q s \<Longrightarrow> pool_reachable cq s"
  by (induction rule: pool_serial.induct) (auto intro: pool_reachable.intros)

section \<open>Properties\<close>

text \<open>
  Property C3: whatever the interleaving of pushing threads and callbacks, no
  \<open>push(..).unwrap()\<close> and no \<open>pop().unwrap()\<close> ever panics: a callback that is about to pop
  finds a task in its queue.
\<close>

theorem pool_never_panics:
  assumes "queue_law cq" and "pool_reachable cq s"
  shows "\<not> panicked s \<and> (0 < in_cb s q \<longrightarrow> cq_pop cq (qs s q) \<noteq> None)"
proof -
  have inv: "pool_inv s" using pool_reachable_inv assms by blast
  show ?thesis using pool_invD(3) [OF inv] pool_inv_pop [OF assms(1) inv, of q] by auto
qed

text \<open>
  Property C14: every task pushed is run at most once, with the handle it was pushed with: at every
  moment it is in exactly one of three places, the tasks run, the callbacks between pop and
  run, and the queue. Tasks overtake one another only inside callbacks: when \<open>n\<close> tasks of a queue
  have been run, each of the first \<open>n\<close> tasks pushed to it has been run or is held by a
  callback that has popped it. In a run in which the callbacks of the queue do not overlap
  between pop and run, the tasks are run in the order in which they were pushed.
\<close>

theorem pool_runs_once:
  assumes "queue_law cq" and "pool_reachable cq s"
  shows "mset (ran s q) + in_run s q + mset (contents (qs s q)) = mset (pushed s q) \<and>
    mset (take (length (ran s q)) (pushed s q)) \<subseteq># mset (ran s q) + in_run s q \<and>
    (pool_serial cq q s \<longrightarrow> (\<exists>xs. in_run s q = mset xs \<and> length xs \<le> 1 \<and>
       ran s q @ xs @ contents (qs s q) = pushed s q))"
proof -
  have inv: "pool_inv s" using pool_reachable_inv assms by blast
  note pushed = pool_invD(2) [OF inv, of q] and ran = pool_invD(4) [OF inv, of q]
  have "mset (ran s q) + in_run s q + mset (contents (qs s q)) = mset (pushed s q)"
    by (simp add: ran flip: pushed)
  moreover have "mset (take (length (ran s q)) (pushed s q)) \<subseteq># mset (ran s q) + in_run s q"
  proof -
    have "length (ran s q) \<le> length (taken s q)"
      using arg_cong [OF ran, of size] by simp
    then have "take (length (ran s q)) (pushed s q) = take (length (ran s q)) (taken s q)"
      by (simp flip: pushed)
    moreover have "mset (take n xs) \<subseteq># mset xs" for n and xs :: "item list"
      by (metis append_take_drop_id mset_append mset_subset_eq_add_left)
    ultimately show ?thesis by (simp add: ran)
  qed
  moreover have "\<exists>xs. in_run s q = mset xs \<and> length xs \<le> 1 \<and> ran s q @ xs @ contents (qs s q) = pushed s q"
    if "pool_serial cq q s"
    using pool_serial_in_order [OF that] pushed by (metis append.assoc in_order_def)
  ultimately show ?thesis by blast
qed

text \<open>
  Property C2: no task is lost. From every reachable state the pool can only take finitely
  many steps without a further push, whatever the order of these steps; the run ends in a
  state where every task pushed has been popped, in the order of the pushes, and has been run
  exactly once, and such a run exists.
\<close>

theorem pool_runs_every_task:
  assumes "queue_law cq" and "pool_reachable cq s"
  shows "wfp (\<lambda>v u. pool_work cq u v) \<and>
    (\<exists>t. (pool_work cq)\<^sup>*\<^sup>* s t \<and> (\<nexists>u. pool_work cq t u)) \<and>
    (\<forall>t. (pool_work cq)\<^sup>*\<^sup>* s t \<longrightarrow> (\<nexists>u. pool_work cq t u) \<longrightarrow> 
       (\<forall>q. taken t q = pushed s q \<and> mset (ran t q) = mset (pushed s q)))"
proof -
  have inv: "pool_inv s" using pool_reachable_inv assms by blast
  have "pool_inv t \<and> pushed t = pushed s" if "(pool_work cq)\<^sup>*\<^sup>* s t" for t
    using that by (induction rule: rtranclp_induct)
      (auto simp: inv pool_work_pushed intro: pool_work_inv assms(1))
  then show ?thesis
    using pool_drains [OF assms(1) inv] pool_quiescent pool_work_terminates by (metis (no_types, lifting))
qed

text \<open>
  A reachable state for the witnesses: two tasks pushed to the high queue, both submitted, one
  callback started.
\<close>

definition sample_handle :: handle where
  "sample_handle = \<lparr>inner = \<lparr>high_work = 11, normal_work = 12, low_work = 13, inner_environ =
      \<lparr>Version = 3, Pool = 4, CleanupGroup = 5, RaceDll = 0, ActivationContext = 0,
       CallbackPriority = 1, Size = 72\<rparr>\<rparr>, h_priority = High, callback_instance = None\<rparr>"

definition sample_pool :: pool_sys where
  "sample_pool = \<lparr>qs = (\<lambda>_. [])(high_queue := [Push (1, sample_handle)]),
     in_push = (\<lambda>_. 0), submitted = (\<lambda>_. 0), in_cb = (\<lambda>_. 0)(high_queue := 1),
     in_run = (\<lambda>_. {#}), pushed = (\<lambda>_. [])(high_queue := [(1, sample_handle)]), taken = (\<lambda>_. []), ran = (\<lambda>_. []), panicked = False\<rparr>"

lemma sample_pool_serial: "pool_serial fifo_queue high_queue sample_pool"
proof -
  let ?s1 = "pool_init\<lparr>qs := snoc high_queue (Push (1, sample_handle)) (qs pool_init),
     in_push := bump high_queue (in_push pool_init),
     pushed := snoc high_queue (1, sample_handle) (pushed pool_init)\<rparr>"
  let ?s2 = "?s1\<lparr>in_push := drain high_queue (in_push ?s1), submitted := bump high_queue (submitted ?s1)\<rparr>"
  let ?s3 = "?s2\<lparr>submitted := drain high_queue (submitted ?s2), in_cb := bump high_queue (in_cb ?s2)\<rparr>"
  have 1: "pool_serial fifo_queue high_queue ?s1"
    by (rule pool_serial.step [OF pool_serial.init], rule pool_step.push)
      (simp_all add: sample_handle_def fifo_queue_def pool_init_def)
  have 2: "pool_serial fifo_queue high_queue ?s2"
    by (rule pool_serial.step [OF 1], rule pool_step.work, rule pool_work.submit)
      (simp_all add: bump_def pool_init_def)
  have 3: "pool_serial fifo_queue high_queue ?s3"
    by (rule pool_serial.step [OF 2], rule pool_step.work, rule pool_work.start)
      (simp_all add: bump_def pool_init_def)
  have "?s3 = sample_pool"
    by (simp add: sample_pool_def pool_init_def snoc_def bump_def drain_def fun_eq_iff)
  with 3 show ?thesis by simp
qed

lemmas sample_pool_reachable = pool_serial_reachable [OF sample_pool_serial]

theorem pool_never_panics_witness:
  "0 < in_cb sample_pool high_queue \<and> cq_pop fifo_queue (qs sample_pool high_queue) \<noteq> None"
  using pool_never_panics [OF fifo_queue_law sample_pool_reachable, of high_queue]
  by (simp add: sample_pool_def)

theorem pool_runs_once_witness:
  "\<exists>xs. in_run sample_pool high_queue = mset xs \<and>
     ran sample_pool high_queue @ xs @ contents (qs sample_pool high_queue) = [(1, sample_handle)]"
  using pool_runs_once [OF fifo_queue_law sample_pool_reachable, of high_queue] sample_pool_serial
  by (auto simp: sample_pool_def)

theorem pool_runs_every_task_witness:
  "\<exists>t. (pool_work fifo_queue)\<^sup>*\<^sup>* sample_pool t \<and> mset (ran t high_queue) = {#(1, sample_handle)#}"
proof -
  have "mset (pushed sample_pool high_queue) = {#(1, sample_handle)#}" by (simp add: sample_pool_def)
  then show ?thesis
    using pool_runs_every_task [OF fifo_queue_law sample_pool_reachable] by (metis (no_types, lifting))
qed

text \<open>
  Property: a work callback takes one task off its queue and runs it with the task's own
  handle, marked with the callback instance, as the current context; a panic of the task ends
  at the callback; and afterwards the thread's context is what it was before.
\<close>

theorem callback_runs_in_task_context:
  assumes "cq_pop cq (queues w q) = Some (r, h)"
    and "run_state (run_task r)
           (w\<lparr>queues := (queues w)(q := queues w q @ [Pop]),
              wctx := Some (h\<lparr>callback_instance := Some inst\<rparr>)\<rparr>) = (x, w1)"
    and "\<forall>m. x \<noteq> Fault (Undefined m)"
  shows "run_state (callback cq run_task inst q) w = (Ok (), w1\<lparr>wctx := wctx w\<rparr>)"
  using assms
  by (cases x rule: catch_unwind.cases) (simp_all add: run_callback [OF assms(1)])

theorem callback_runs_in_task_context_witness:
  "run_state (callback fifo_queue
       (\<lambda>r. State (\<lambda>w. (Fault (Panicked ''boom''), w\<lparr>wlog := wlog w @ [WakeTask r]\<rparr>))) 99 high_queue)
     \<lparr>wlog = [], wctx = None, queues = (\<lambda>_. [Push (1, sample_handle)])\<rparr> =
   (Ok (), \<lparr>wlog = [WakeTask 1], wctx = None,
      queues = (\<lambda>_. [Push (1, sample_handle)])(high_queue := [Push (1, sample_handle), Pop])\<rparr>)"
proof -
  let ?w = "\<lparr>wlog = [], wctx = None, queues = (\<lambda>_. [Push (1, sample_handle)])\<rparr>"
  have "cq_pop fifo_queue (queues ?w high_queue) = Some (1, sample_handle)"
    by (simp add: fifo_queue_def contents_def)
  from callback_runs_in_task_context [OF this, of
      "\<lambda>r. State (\<lambda>w. (Fault (Panicked ''boom''), w\<lparr>wlog := wlog w @ [WakeTask r]\<rparr>))" 99]
  show ?thesis by simp
qed

text \<open>
  Callbacks of one queue that follow one another, with the instances the system gives them. What
  happens to the queue in between, the tasks it runs and other threads included, is in \<open>run_task\<close>:
  it may push, and as callbacks alone pop, it does nothing else to the queue.
\<close>

definition callbacks ::
  "cq_ops \<Rightarrow> (runnable \<Rightarrow> (ex_world, unit res) state) \<Rightarrow> queue_id \<Rightarrow> ptr list \<Rightarrow> ex_world \<Rightarrow> ex_world" where
  "callbacks cq run_task q instances w =
     fold (\<lambda>instance w. snd (run_state (callback cq run_task instance q) w)) instances w"

definition only_pushes :: "queue_id \<Rightarrow> (runnable \<Rightarrow> (ex_world, unit res) state) \<Rightarrow> bool" where
  "only_pushes q run_task \<longleftrightarrow> (\<forall>r w. \<exists>xs. queues (snd (run_state (run_task r) w)) q = queues w q @ map Push xs)"

lemma contents_pushes [simp]: "contents (h @ map Push xs) = contents h @ xs"
  by (induction xs rule: rev_induct) (simp_all flip: append_assoc)

lemma callback_pops:
  assumes "queue_law cq" and "only_pushes q run_task" and "contents (queues w q) = x # xs"
  shows "\<exists>ys. contents (queues (snd (run_state (callback cq run_task inst q) w)) q) = xs @ ys"
    and "wctx (snd (run_state (callback cq run_task inst q) w)) = wctx w"
proof -
  obtain r h where x: "x = (r, h)" by fastforce
  have pop: "cq_pop cq (queues w q) = Some (r, h)" using assms(1,3) x by (simp add: queue_law_def)
  let ?w = "w\<lparr>queues := (queues w)(q := queues w q @ [Pop]),
    wctx := Some (h\<lparr>callback_instance := Some inst\<rparr>)\<rparr>"
  obtain ys where ys: "queues (snd (run_state (run_task r) ?w)) q = queues ?w q @ map Push ys"
    using assms(2) unfolding only_pushes_def by blast
  have "contents (queues (snd (run_state (run_task r) ?w)) q) = xs @ ys"
    using contents_pushes [of "queues w q @ [Pop]" ys] by (simp add: ys assms(3))
  then show "\<exists>ys. contents (queues (snd (run_state (callback cq run_task inst q) w)) q) = xs @ ys"
    by (auto simp: run_callback [OF pop] split_beta)
  show "wctx (snd (run_state (callback cq run_task inst q) w)) = wctx w"
    by (simp add: run_callback [OF pop] split_beta)
qed

lemma callbacks_pop:
  assumes "queue_law cq" and "only_pushes q run_task"
    and "contents (queues w q) = xs @ ys" and "length instances = length xs"
  shows "(\<exists>zs. contents (queues (callbacks cq run_task q instances w) q) = ys @ zs) \<and>
    wctx (callbacks cq run_task q instances w) = wctx w"
  using assms(3,4)
proof (induction xs arbitrary: instances w ys)
  case Nil
  then show ?case by (simp add: callbacks_def)
next
  case (Cons x xs)
  then obtain i js where i: "instances = i # js" "length js = length xs" by (cases instances) auto
  note pops = callback_pops [OF assms(1,2) Cons.prems(1) [simplified], of i]
  then obtain us where "contents (queues (snd (run_state (callback cq run_task i q) w)) q) = xs @ ys @ us"
    by auto
  from Cons.IH [OF this i(2)] pops(2) show ?case by (auto simp: i callbacks_def)
qed

text \<open>
  Property C19: spawning on a handle submits exactly the work item of the handle's priority, and no
  task waits for more than the tasks queued before it: if \<open>n\<close> tasks are in that queue when the task
  is spawned, the callback of the queue that follows the next \<open>n\<close> of them, one after another, runs the
  spawned task with the handle it was spawned on, marked with the callback instance, as the
  context, whatever the tasks before it and other threads have pushed in the meantime.
\<close>

theorem spawn_then_callback:
  assumes "queue_law cq" and "run_state (handle_spawn p cq h r) w = (res, w1)"
    and "q = queue_of (h_priority h)" and "only_pushes q run_task"
    and "length instances = length (contents (queues w q))"
    and "w2 = callbacks cq run_task q instances w1"
  shows "res = Ok \<lparr>jh_task = r, jh_taken = False\<rparr> \<and>
    wlog w1 = wlog w @ [SubmitThreadpoolWork (work_of (inner h) q)] \<and> wctx w2 = wctx w \<and>
    run_state (callback cq run_task inst q) w2 =
      (let (x, w3) = run_state (run_task r)
             (w2\<lparr>queues := (queues w2)(q := queues w2 q @ [Pop]),
                 wctx := Some (h\<lparr>callback_instance := Some inst\<rparr>)\<rparr>)
       in (catch_unwind x, w3\<lparr>wctx := wctx w\<rparr>))"
proof -
  have w1: "res = Ok \<lparr>jh_task = r, jh_taken = False\<rparr>" "wlog w1 = wlog w @ [SubmitThreadpoolWork (work_of (inner h) q)]"
    "wctx w1 = wctx w" "contents (queues w1 q) = contents (queues w q) @ [(r, h)]"
    using assms(1-3) by (auto simp: handle_spawn_def run_qmark run_push_task)
  from callbacks_pop [OF assms(1,4) w1(4) assms(5)] obtain zs where
    w2: "contents (queues w2 q) = (r, h) # zs" "wctx w2 = wctx w" using assms(6) w1(3) by auto
  then have "cq_pop cq (queues w2 q) = Some (r, h)" using assms(1) by (simp add: queue_law_def)
  with w1 w2 show ?thesis using run_callback [of cq w2 q r h run_task inst] by simp
qed

theorem spawn_then_callback_witness:
  "\<exists>w1. run_state (handle_spawn (sample_platform (\<lambda>c. 0)) fifo_queue sample_handle 5)
      \<lparr>wlog = [], wctx = None, queues = (\<lambda>_. [Push (4, sample_handle)])\<rparr> = (Ok \<lparr>jh_task = 5, jh_taken = False\<rparr>, w1) \<and>
    wlog (callbacks fifo_queue
       (\<lambda>r. State (\<lambda>w. (Ok (), w\<lparr>wlog := wlog w @ [WakeTask r]\<rparr>))) high_queue [98, 99] w1) =
      [SubmitThreadpoolWork 11, WakeTask 4, WakeTask 5]"
proof -
  let ?w = "\<lparr>wlog = [], wctx = None, queues = (\<lambda>_. [Push (4, sample_handle)])\<rparr> :: ex_world"
  let ?t = "\<lambda>r. State (\<lambda>w. (Ok (), w\<lparr>wlog := wlog w @ [WakeTask r]\<rparr>)) :: (ex_world, unit res) state"
  obtain res w1 where run: "run_state (handle_spawn (sample_platform (\<lambda>c. 0)) fifo_queue sample_handle 5) ?w = (res, w1)"
    by fastforce
  define w2 where "w2 = callbacks fifo_queue ?t high_queue [98] w1"
  have q: "high_queue = queue_of (h_priority sample_handle)" by (simp add: sample_handle_def)
  have t: "only_pushes high_queue ?t" by (auto simp: only_pushes_def intro: exI [of _ "[]"])
  have n: "length [98 :: ptr] = length (contents (queues ?w high_queue))" by (simp add: contents_def)
  note last_callback = spawn_then_callback [OF fifo_queue_law run q t n w2_def, of 99]
  have w1: "queues w1 high_queue = [Push (4, sample_handle), Push (5, sample_handle)]"
    "wlog w1 = [SubmitThreadpoolWork 11]"
    using run run_push_task [OF fifo_queue_law] by (auto simp: handle_spawn_def run_qmark sample_handle_def)
  have "cq_pop fifo_queue (queues w1 high_queue) = Some (4, sample_handle)"
    by (simp add: w1 fifo_queue_def contents_def)
  then have "wlog w2 = [SubmitThreadpoolWork 11, WakeTask 4]"
    by (simp add: w2_def callbacks_def run_callback w1)
  then have "wlog (snd (run_state (callback fifo_queue ?t 99 high_queue) w2)) =
    [SubmitThreadpoolWork 11, WakeTask 4, WakeTask 5]"
    using last_callback by simp
  moreover have "callbacks fifo_queue ?t high_queue [98, 99] w1 = snd (run_state (callback fifo_queue ?t 99 high_queue) w2)"
    by (simp add: w2_def callbacks_def)
  ultimately show ?thesis using run last_callback by simp
qed

lemma push_task_steps:
  assumes "qs s = queues w" and "run_state (push_task p cq h r) w = (Ok (), w1)"
    and "q = queue_of (h_priority h)"
  shows "\<exists>t. (pool_step cq OO pool_work cq) s t \<and> qs t = queues w1 \<and> panicked t = panicked s \<and>
    submitted t = bump q (submitted s) \<and> pushed t = snoc q (r, h) (pushed s) \<and>
    wlog w1 = wlog w @ [SubmitThreadpoolWork (work_of (inner h) q)]"
proof -
  have log: "wlog w1 = wlog w @ [SubmitThreadpoolWork (work_of (inner h) q)]"
    using assms by (auto simp: push_task_def run_simps Let_def split: if_splits)
  have ok: "cq_push_ok cq (qs s q)" and w1: "queues w1 = snoc q (Push (r, h)) (qs s)"
    using assms by (auto simp: push_task_def run_simps Let_def snoc_def split: if_splits)
  let ?u = "s\<lparr>qs := snoc q (Push (r, h)) (qs s), in_push := bump q (in_push s),
       pushed := snoc q (r, h) (pushed s)\<rparr>"
  let ?t = "?u\<lparr>in_push := drain q (in_push ?u), submitted := bump q (submitted ?u)\<rparr>"
  have "pool_step cq s ?u" using pool_step.push [OF assms(3) ok] .
  moreover have "pool_work cq ?u ?t" by (rule pool_work.submit) (simp add: bump_def)
  ultimately show ?thesis using w1 log by (intro exI [of _ ?t]) auto
qed

lemma callback_step:
  assumes "qs s = queues w" and "0 < in_cb s q"
  shows "\<exists>t. pool_work cq s t \<and> in_cb t = drain q (in_cb s) \<and>
       (case cq_pop cq (queues w q) of
          Some (r, h) \<Rightarrow> in_run t q = add_mset (r, h) (in_run s q) \<and> ran t = ran s \<and>
            (\<exists>u. pool_work cq t u \<and> qs u = qs t \<and> in_run u = in_run s \<and> ran u = snoc q (r, h) (ran s)) \<and>
            run_state (callback cq run_task inst q) w =
              (let (x, w2) = run_state (run_task r)
                     (w\<lparr>queues := qs t, wctx := Some (h\<lparr>callback_instance := Some inst\<rparr>)\<rparr>)
               in (catch_unwind x, w2\<lparr>wctx := wctx w\<rparr>))
        | None \<Rightarrow> panicked t \<and> (\<exists>m. run_state (callback cq run_task inst q) w =
            (Fault (Panicked m), w\<lparr>queues := qs t\<rparr>)))"
proof (cases "cq_pop cq (queues w q)")
  case None
  let ?t = "s\<lparr>qs := snoc q Pop (qs s), in_cb := drain q (in_cb s), panicked := True\<rparr>"
  have "pool_work cq s ?t" using pool_work.pop_panic [OF assms(2)] None assms(1) by simp
  then show ?thesis using None assms(1)
    by (intro exI [of _ ?t]) (auto simp: callback_def run_simps snoc_def)
next
  case (Some x)
  obtain r h where x: "x = (r, h)" by fastforce
  let ?t = "s\<lparr>qs := snoc q Pop (qs s), in_cb := drain q (in_cb s),
    in_run := (in_run s)(q := add_mset x (in_run s q)), taken := snoc q x (taken s)\<rparr>"
  let ?u = "?t\<lparr>in_run := (in_run ?t)(q := in_run ?t q - {#x#}), ran := snoc q x (ran ?t)\<rparr>"
  have t: "pool_work cq s ?t" using pool_work.pop [OF assms(2)] Some assms(1) by simp
  have u: "pool_work cq ?t ?u" by (rule pool_work.run) simp
  have "\<exists>u. pool_work cq ?t u \<and> qs u = qs ?t \<and> in_run u = in_run s \<and> ran u = snoc q (r, h) (ran s)"
    by (rule exI [of _ ?u], use u in \<open>simp add: x\<close>)
  then show ?thesis using t Some assms(1) run_callback [of cq w q r h run_task inst]
    by (intro exI [of _ ?t]) (auto simp: snoc_def x)
qed

text \<open>
  Property C1: the operations refine the pool. \<open>push_task\<close> is the steps \<open>push\<close> and \<open>submit\<close> of the
  transition system, its one call being the submission of the work item of the queue; and a work callback, once the system started it,
  is the step \<open>pop\<close> and then the step \<open>run\<close>, in which it runs the task it popped with the task's
  handle as the context; or it is the step \<open>pop_panic\<close>, and panics, exactly when the pop finds nothing.
\<close>

theorem executor_refines_pool:
  assumes "qs s = queues w"
  shows "(run_state (push_task p cq h r) w = (Ok (), w1) \<longrightarrow>
      (\<exists>t. (pool_step cq OO pool_work cq) s t \<and> qs t = queues w1 \<and> panicked t = panicked s \<and>
         submitted t = bump (queue_of (h_priority h)) (submitted s) \<and>
         pushed t = snoc (queue_of (h_priority h)) (r, h) (pushed s) \<and>
         wlog w1 = wlog w @ [SubmitThreadpoolWork (work_of (inner h) (queue_of (h_priority h)))])) \<and>
    (0 < in_cb s q \<longrightarrow> (\<exists>t. pool_work cq s t \<and> in_cb t = drain q (in_cb s) \<and>
       (case cq_pop cq (queues w q) of
          Some (r, h) \<Rightarrow> in_run t q = add_mset (r, h) (in_run s q) \<and> ran t = ran s \<and>
            (\<exists>u. pool_work cq t u \<and> qs u = qs t \<and> in_run u = in_run s \<and> ran u = snoc q (r, h) (ran s)) \<and>
            run_state (callback cq run_task inst q) w =
              (let (x, w2) = run_state (run_task r)
                     (w\<lparr>queues := qs t, wctx := Some (h\<lparr>callback_instance := Some inst\<rparr>)\<rparr>)
               in (catch_unwind x, w2\<lparr>wctx := wctx w\<rparr>))
        | None \<Rightarrow> panicked t \<and> (\<exists>m. run_state (callback cq run_task inst q) w =
            (Fault (Panicked m), w\<lparr>queues := qs t\<rparr>)))))"
  using push_task_steps [OF assms] callback_step [OF assms] by blast

theorem executor_refines_pool_witness:
  "\<exists>t. (pool_step fifo_queue OO pool_work fifo_queue) pool_init t \<and> submitted t high_queue = 1 \<and>
     pushed t high_queue = [(5, sample_handle)]"
proof -
  let ?w = "\<lparr>wlog = [], wctx = None, queues = (\<lambda>_. [])\<rparr> :: ex_world"
  have init: "qs pool_init = queues ?w" by (simp add: pool_init_def)
  obtain w1 where run: "run_state (push_task (sample_platform (\<lambda>c. 0)) fifo_queue sample_handle 5) ?w = (Ok (), w1)"
    by (simp add: run_push_task)
  have prio: "queue_of (h_priority sample_handle) = high_queue" by (simp add: sample_handle_def)
  obtain t where "(pool_step fifo_queue OO pool_work fifo_queue) pool_init t"
    "submitted t = bump high_queue (submitted pool_init)"
    "pushed t = snoc high_queue (5, sample_handle) (pushed pool_init)"
    using executor_refines_pool [OF init, of "sample_platform (\<lambda>c. 0)" fifo_queue sample_handle 5 w1] run
    unfolding prio by blast
  then show ?thesis by (intro exI [of _ t]) (simp add: bump_def snoc_def pool_init_def)
qed

end
