(* ===== verification/Waker.thy ===== *)
theory Waker
  imports Executor
begin

text \<open>
  \<open>src/task/waker.rs\<close>, \<open>src/task/block_on.rs\<close> and \<open>yield_now\<close> of \<open>src/task/util.rs\<close>: the
  waker on which a blocked thread sleeps, the loop that polls a spawned task, and the future
  that yields once. The sleeping thread and its wakers are a step relation over the atomic
  word, because the question is whether a wake can be lost between the load and the sleep.
\<close>

section \<open>The inline waker\<close>

definition inline_waker_new :: u32 where
  "inline_waker_new = 0"

definition inline_waker_default :: u32 where
  "inline_waker_default = inline_waker_new"

text \<open>\<open>wake\<close>: the exchange, and whether \<open>WakeByAddressAll\<close> is called after it.\<close>

definition wake :: "u32 \<Rightarrow> bool \<times> u32" where
  "wake = compare_exchange 0 1"

text \<open>The loop condition of \<open>wait\<close> and the value \<open>WaitOnAddress\<close> compares with.\<close>

definition wait_continues :: "u32 \<Rightarrow> bool" where
  "wait_continues s \<longleftrightarrow> s \<noteq> 1"

definition wait_compare :: u32 where
  "wait_compare = 0"

text \<open>\<open>wait\<close> as a loop: the list gives what other threads do to the word at each iteration.\<close>

definition inline_wait :: "(u32 \<Rightarrow> u32) list \<Rightarrow> u32 \<Rightarrow> u32 option" where
  "inline_wait env s = spin_while wait_continues env s"

section \<open>Blocking on a task\<close>

text \<open>
  \<open>loop { match future.poll(cx) { Ready(o) => return o, Pending => inline_waker.wait() } }\<close>.
  The task is external (\<open>task_ops\<close>), \<open>cx\<close> is the context made from \<open>inline_waker.get_waker()\<close>, and
  \<open>env n\<close> is what other threads do during the \<open>n\<close>-th wait, to the word and to the world. \<open>None\<close>:
  still running.
\<close>

fun block_on_loop ::
  "nat \<Rightarrow> ('s, 'a) task_ops \<Rightarrow> (nat \<Rightarrow> (u32 \<Rightarrow> u32) list \<times> ('s \<Rightarrow> 's)) \<Rightarrow> waker \<Rightarrow> join_handle \<Rightarrow> nat \<Rightarrow> u32
     \<Rightarrow> ('s, 'a option) state" where
  "block_on_loop 0 ops env cx future n s = State_Monad.return None"
| "block_on_loop (Suc fuel) ops env cx future n s = do {
     r \<leftarrow> join_handle_poll ops future cx;
     case r of
       Ready output \<Rightarrow> State_Monad.return (Some output)
     | Pending \<Rightarrow> do {
         _ \<leftarrow> State (\<lambda>w. ((), snd (env n) w));
         case inline_wait (fst (env n)) s of
           None \<Rightarrow> State_Monad.return None
         | Some s' \<Rightarrow> block_on_loop fuel ops env cx future (Suc n) s'
       }
   }"

text \<open>At the return the local \<open>future\<close>, the join handle, is dropped, which detaches the task.\<close>

definition handle_block_on ::
  "platform \<Rightarrow> cq_ops \<Rightarrow> (ex_world, 'a) task_ops \<Rightarrow> nat \<Rightarrow>
     (nat \<Rightarrow> (u32 \<Rightarrow> u32) list \<times> (ex_world \<Rightarrow> ex_world)) \<Rightarrow> waker \<Rightarrow> handle \<Rightarrow> runnable
     \<Rightarrow> (ex_world, 'a option res) state" where
  "handle_block_on p cq ops fuel env cx self new_task =
     qmark (handle_spawn p cq self new_task) (\<lambda>future. do {
       output \<leftarrow> block_on_loop fuel ops env cx future 0 inline_waker_default;
       case output of
         None \<Rightarrow> State_Monad.return (Ok None)
       | Some output \<Rightarrow> qmark (join_handle_drop ops future) (\<lambda>_. State_Monad.return (Ok (Some output)))
     })"

definition block_on ::
  "platform \<Rightarrow> cq_ops \<Rightarrow> (ex_world, 'a) task_ops \<Rightarrow> nat \<Rightarrow>
     (nat \<Rightarrow> (u32 \<Rightarrow> u32) list \<times> (ex_world \<Rightarrow> ex_world)) \<Rightarrow> waker \<Rightarrow> runnable
     \<Rightarrow> (ex_world, 'a option res) state" where
  "block_on p cq ops fuel env cx new_task =
     qmark current (\<lambda>h. handle_block_on p cq ops fuel env cx h new_task)"

section \<open>Yielding\<close>

text \<open>\<open>YieldNow(bool)\<close>; the context is the waker the poll was given.\<close>

definition yield_now_poll :: "platform \<Rightarrow> waker \<Rightarrow> bool \<Rightarrow> ('z wae, unit poll \<times> bool) state" where
  "yield_now_poll p cx self =
     (if \<not> self then do {
        _ \<leftarrow> sys p (WakeTask cx);
        State_Monad.return (Pending, True)
      } else State_Monad.return (Ready (), self))"

definition yield_now :: bool where
  "yield_now = False"

section \<open>Sleeping and waking, interleaved\<close>

datatype waiter_pc =
    W_load \<comment> \<open>before \<open>state.load\<close>\<close>
  | W_call \<comment> \<open>before \<open>WaitOnAddress\<close>\<close>
  | W_asleep \<comment> \<open>inside it\<close>
  | W_done \<comment> \<open>\<open>wait\<close> has returned\<close>

datatype waker_pc =
    K_start \<comment> \<open>before the exchange\<close>
  | K_wake_all \<comment> \<open>before \<open>WakeByAddressAll\<close>\<close>
  | K_done \<comment> \<open>\<open>wake\<close> has returned\<close>

record iw_sys =
  iw_word :: u32
  iw_waiter :: waiter_pc
  iw_wakers :: "nat \<Rightarrow> waker_pc"

definition iw_init :: iw_sys where
  "iw_init = \<lparr>iw_word = inline_waker_new, iw_waiter = W_load, iw_wakers = (\<lambda>_. K_start)\<rparr>"

text \<open>
  \<open>WaitOnAddress\<close> compares and falls asleep in one step, and may return without a wake; a
  wake of all wakes the sleeper. \<open>wait\<close> may be called again after it returned.
\<close>

inductive iw_step :: "iw_sys \<Rightarrow> iw_sys \<Rightarrow> bool" where
  load: "iw_waiter s = W_load \<Longrightarrow>
    iw_step s (s\<lparr>iw_waiter := (if wait_continues (iw_word s) then W_call else W_done)\<rparr>)"
| sleep: "iw_waiter s = W_call \<Longrightarrow>
    iw_step s (s\<lparr>iw_waiter := (if iw_word s = wait_compare then W_asleep else W_load)\<rparr>)"
| spurious: "iw_waiter s = W_asleep \<Longrightarrow> iw_step s (s\<lparr>iw_waiter := W_load\<rparr>)"
| again: "iw_waiter s = W_done \<Longrightarrow> iw_step s (s\<lparr>iw_waiter := W_load\<rparr>)"
| exchange: "iw_wakers s i = K_start \<Longrightarrow>
    iw_step s (s\<lparr>iw_word := snd (wake (iw_word s)),
       iw_wakers := (iw_wakers s)(i := (if fst (wake (iw_word s)) then K_wake_all else K_done))\<rparr>)"
| wake_all: "iw_wakers s i = K_wake_all \<Longrightarrow>
    iw_step s (s\<lparr>iw_wakers := (iw_wakers s)(i := K_done),
       iw_waiter := (if iw_waiter s = W_asleep then W_load else iw_waiter s)\<rparr>)"

inductive iw_reachable :: "iw_sys \<Rightarrow> bool" where
  init: "iw_reachable iw_init"
| step: "iw_reachable s \<Longrightarrow> iw_step s t \<Longrightarrow> iw_reachable t"

text \<open>A sleeper with the word already set has its wake still to come.\<close>

definition iw_inv :: "iw_sys \<Rightarrow> bool" where
  "iw_inv s \<longleftrightarrow>
     iw_word s \<in> {0, 1} \<and>
     (\<forall>i. iw_wakers s i \<noteq> K_start \<longrightarrow> iw_word s = 1) \<and>
     (iw_waiter s = W_asleep \<longrightarrow> iw_word s = 1 \<longrightarrow> (\<exists>i. iw_wakers s i = K_wake_all))"

lemma iw_step_inv: "iw_step s t \<Longrightarrow> iw_inv s \<Longrightarrow> iw_inv t"
proof (induction rule: iw_step.induct)
  case (exchange s i)
  then show ?case
    by (auto simp: iw_inv_def wake_def compare_exchange_def) (metis waker_pc.distinct(1))
next
  case (wake_all s i)
  then show ?case by (auto simp: iw_inv_def)
qed (auto simp: iw_inv_def wait_compare_def)

lemma iw_reachable_inv: "iw_reachable s \<Longrightarrow> iw_inv s"
proof (induction rule: iw_reachable.induct)
  case init
  show ?case by (simp add: iw_inv_def iw_init_def inline_waker_new_def)
next
  case (step s t)
  then show ?case by (blast intro: iw_step_inv)
qed

lemma iw_wait_returns_awake:
  assumes "iw_word s = 1" and "iw_waiter s \<noteq> W_asleep"
  shows "\<exists>t. iw_step\<^sup>*\<^sup>* s t \<and> iw_waiter t = W_done \<and> iw_word t = 1"
proof -
  have from_load: "\<exists>t. iw_step\<^sup>*\<^sup>* u t \<and> iw_waiter t = W_done \<and> iw_word t = 1"
    if "iw_waiter u = W_load" "iw_word u = 1" for u
    using iw_step.load [OF that(1)] that(2)
    by (intro exI [of _ "u\<lparr>iw_waiter := W_done\<rparr>"]) (auto simp: wait_continues_def)
  show ?thesis
  proof (cases "iw_waiter s")
    case W_call
    then have "iw_step s (s\<lparr>iw_waiter := W_load\<rparr>)"
      using iw_step.sleep [of s] assms(1) by (simp add: wait_compare_def)
    with from_load [of "s\<lparr>iw_waiter := W_load\<rparr>"] assms(1) show ?thesis
      by (auto intro: converse_rtranclp_into_rtranclp)
  qed (use assms from_load in auto)
qed

section \<open>Properties\<close>

text \<open>
  Property C12: no wake is lost. If the thread sleeps in \<open>WaitOnAddress\<close> although the word is
  set (in particular after some \<open>wake\<close> has returned), then another \<open>wake\<close> is still about to
  call \<open>WakeByAddressAll\<close>.
\<close>

theorem inline_waker_no_lost_wake:
  assumes "iw_reachable s" and "iw_waiter s = W_asleep"
    and "iw_word s = 1 \<or> iw_wakers s i = K_done"
  shows "\<exists>j. iw_wakers s j = K_wake_all"
  using iw_reachable_inv [OF assms(1)] assms(2,3) by (auto simp: iw_inv_def)

text \<open>A run in which the waiter sleeps and a waker has set the word.\<close>

lemma iw_sample_reachable:
  "iw_reachable \<lparr>iw_word = 1, iw_waiter = W_asleep, iw_wakers = (\<lambda>_. K_start)(3 := K_wake_all)\<rparr>"
proof -
  let ?s1 = "iw_init\<lparr>iw_waiter := W_call\<rparr>"
  let ?s2 = "iw_init\<lparr>iw_waiter := W_asleep\<rparr>"
  have 1: "iw_reachable ?s1"
    using iw_reachable.step [OF iw_reachable.init iw_step.load [of iw_init]]
    by (simp add: iw_init_def inline_waker_new_def wait_continues_def)
  have 2: "iw_reachable ?s2"
    using iw_reachable.step [OF 1 iw_step.sleep [of ?s1]]
    by (simp add: iw_init_def inline_waker_new_def wait_compare_def)
  show ?thesis
    using iw_reachable.step [OF 2 iw_step.exchange [of ?s2 3]]
    by (simp add: iw_init_def inline_waker_new_def wake_def compare_exchange_def)
qed

theorem inline_waker_no_lost_wake_witness:
  "\<exists>j. ((\<lambda>_. K_start)(3 := K_wake_all)) (j :: nat) = K_wake_all"
  using inline_waker_no_lost_wake [OF iw_sample_reachable] by simp

text \<open>
  Property: once the word is set, \<open>wait\<close> can return from every reachable state, by its own
  steps and the calls to \<open>WakeByAddressAll\<close> still to come; and the word stays set.
\<close>

theorem inline_waker_wait_returns:
  assumes "iw_reachable s" and "iw_word s = 1"
  shows "\<exists>t. iw_step\<^sup>*\<^sup>* s t \<and> iw_waiter t = W_done \<and> iw_word t = 1"
proof (cases "iw_waiter s = W_asleep")
  case True
  then obtain j where j: "iw_wakers s j = K_wake_all"
    using iw_reachable_inv [OF assms(1)] assms(2) by (auto simp: iw_inv_def)
  let ?u = "s\<lparr>iw_wakers := (iw_wakers s)(j := K_done), iw_waiter := W_load\<rparr>"
  have "iw_step s ?u" using iw_step.wake_all [OF j] True by simp
  with iw_wait_returns_awake [of ?u] assms(2) show ?thesis
    by (auto intro: converse_rtranclp_into_rtranclp)
qed (use assms iw_wait_returns_awake in auto)

theorem inline_waker_wait_returns_witness:
  "\<exists>t. iw_step\<^sup>*\<^sup>* \<lparr>iw_word = 1, iw_waiter = W_asleep, iw_wakers = (\<lambda>_. K_start)(3 := K_wake_all)\<rparr> t \<and>
     iw_waiter t = W_done \<and> iw_word t = 1"
  using inline_waker_wait_returns [OF iw_sample_reachable] by simp

text \<open>The word once set, every later \<open>wait\<close> returns at once.\<close>

lemma inline_wait_set [simp]: "inline_wait env 1 = Some 1"
  by (simp add: inline_wait_def wait_continues_def)

lemma inline_wait_value: "inline_wait env s = Some t \<Longrightarrow> t = 1"
  using spin_while_result [of wait_continues env s t] by (simp add: inline_wait_def wait_continues_def)

lemma inline_wait_woken:
  assumes "\<forall>e \<in> set pre. \<forall>s. s = 0 \<or> s = 1 \<longrightarrow> e s = 0 \<or> e s = 1" and "s = 0 \<or> s = 1"
  shows "inline_wait (pre @ (\<lambda>s. snd (wake s)) # post) s = Some 1"
proof -
  have "\<exists>t. spin_while wait_continues (pre @ (\<lambda>s. snd (wake s)) # post) s = Some t"
    by (rule spin_while_released [where I = "\<lambda>s. s = 0 \<or> s = 1"])
      (use assms in \<open>auto simp: wait_continues_def wake_def compare_exchange_def\<close>)
  then show ?thesis using inline_wait_value by (fastforce simp: inline_wait_def)
qed

text \<open>
  The task answers \<open>Pending\<close> to \<open>k\<close> polls, starting from the world \<open>v n\<close>, with the other threads in
  between, and then \<open>Ready x\<close>, which leaves the world \<open>v'\<close>.
\<close>

definition answers_after ::
  "('s, 'a) task_ops \<Rightarrow> (nat \<Rightarrow> (u32 \<Rightarrow> u32) list \<times> ('s \<Rightarrow> 's)) \<Rightarrow> waker \<Rightarrow> runnable \<Rightarrow> (nat \<Rightarrow> 's) \<Rightarrow> nat \<Rightarrow> nat \<Rightarrow>
     'a \<Rightarrow> 's \<Rightarrow> bool" where
  "answers_after ops env cx r v n k x v' \<longleftrightarrow>
     (\<forall>m < k. \<exists>u. run_state (task_poll ops r cx) (v (n + m)) = (Pending, u) \<and> v (Suc (n + m)) = snd (env (n + m)) u) \<and>
     run_state (task_poll ops r cx) (v (n + k)) = (Ready x, v')"

lemma answers_after_Suc:
  assumes "answers_after ops env cx r v n (Suc k) x v'"
  shows "\<exists>u. run_state (task_poll ops r cx) (v n) = (Pending, u) \<and> v (Suc n) = snd (env n) u"
    and "answers_after ops env cx r v (Suc n) k x v'"
proof -
  show "\<exists>u. run_state (task_poll ops r cx) (v n) = (Pending, u) \<and> v (Suc n) = snd (env n) u"
    using assms unfolding answers_after_def by (metis add.right_neutral zero_less_Suc)
  show "answers_after ops env cx r v (Suc n) k x v'"
    using assms unfolding answers_after_def by (metis Suc_mono add_Suc add_Suc_right)
qed

lemma block_on_loop_set:
  assumes "answers_after ops env cx (jh_task f) v n k x v'" and "k < fuel"
  shows "run_state (block_on_loop fuel ops env cx f n 1) (v n) = (Some x, v')"
  using assms
proof (induction k arbitrary: n fuel)
  case 0
  then show ?case by (cases fuel) (auto simp: answers_after_def join_handle_poll_def)
next
  case (Suc k)
  then obtain f' where f: "fuel = Suc f'" "k < f'" by (cases fuel) auto
  obtain u where "run_state (task_poll ops (jh_task f) cx) (v n) = (Pending, u)" "v (Suc n) = snd (env n) u"
    using answers_after_Suc(1) [OF Suc.prems(1)] by blast
  with Suc.IH [OF answers_after_Suc(2) [OF Suc.prems(1)] f(2)] show ?case
    by (simp add: f join_handle_poll_def)
qed

text \<open>
  Property C23: \<open>block_on\<close> returns the task's output. If the task answers \<open>Pending\<close> to the polls
  before the \<open>k\<close>-th and \<open>Ready x\<close> to the \<open>k\<close>-th, whatever other threads do to the world in between,
  and the first wait (if there is one) sees a \<open>wake\<close> after any number of other accesses to the word by
  wakers, then \<open>block_on\<close> spawns the task, returns \<open>x\<close> after \<open>k + 1\<close> polls, and what it does after the
  last of them is to detach the task.
\<close>

theorem block_on_returns_output:
  assumes "queue_law cq" and "v 0 = snd (run_state (handle_spawn p cq h r) w)"
    and "answers_after ops env cx r v 0 k x v'" and "k < fuel"
    and "0 < k \<Longrightarrow> fst (env 0) = pre @ (\<lambda>s. snd (wake s)) # post"
    and "\<forall>e \<in> set pre. e = (\<lambda>s. s) \<or> e = (\<lambda>s. snd (wake s))"
  shows "run_state (handle_block_on p cq ops fuel env cx h r) w =
    (Ok (Some x), snd (run_state (task_detach ops r) v'))"
proof -
  let ?f = "\<lparr>jh_task = r, jh_taken = False\<rparr>"
  have "run_state (block_on_loop fuel ops env cx ?f 0 inline_waker_new) (v 0) = (Some x, v')"
  proof (cases k)
    case 0
    then show ?thesis using assms(3,4) by (cases fuel) (auto simp: answers_after_def join_handle_poll_def)
  next
    case (Suc k')
    then obtain f where f: "fuel = Suc f" "k' < f" using assms(4) by (cases fuel) auto
    have "\<forall>e \<in> set pre. \<forall>s. s = 0 \<or> s = 1 \<longrightarrow> e s = 0 \<or> e s = 1"
      using assms(6) by (auto simp: wake_def compare_exchange_def)
    from inline_wait_woken [OF this, of inline_waker_new post]
    have "inline_wait (fst (env 0)) inline_waker_new = Some 1"
      using assms(5) Suc by (simp add: inline_waker_new_def)
    moreover note ans = answers_after_Suc [OF assms(3) [unfolded Suc]]
    moreover have "run_state (block_on_loop f ops env cx ?f 1 1) (v 1) = (Some x, v')"
      by (rule block_on_loop_set [of _ _ _ _ _ _ k']) (use ans(2) f in auto)
    ultimately show ?thesis by (auto simp: f join_handle_poll_def)
  qed
  then show ?thesis
    using run_push_task [OF assms(1)] assms(2)
    by (simp add: handle_block_on_def handle_spawn_def run_qmark inline_waker_default_def
      join_handle_drop_def manually_drop_take_def split_beta)
qed

text \<open>A task that is ready when another thread has made its third wake-up.\<close>

definition sample_task :: "(ex_world, nat) task_ops" where
  "sample_task = \<lparr>
     task_poll = (\<lambda>r cx. State (\<lambda>w. (if length (wlog w) < 3 then Pending else Ready 2, w))),
     task_cancel = (\<lambda>r. State (\<lambda>w. (Pending, w))),
     task_detach = (\<lambda>r. State (\<lambda>w. ((), w\<lparr>wctx := None\<rparr>)))\<rparr>"

theorem block_on_returns_output_witness:
  "run_state (handle_block_on (sample_platform (\<lambda>c. 0)) fifo_queue sample_task 5
      (\<lambda>n. ([\<lambda>s. s, \<lambda>s. snd (wake s)], \<lambda>w. w\<lparr>wlog := wlog w @ [WakeTask 9]\<rparr>)) 9 sample_handle 1)
      \<lparr>wlog = [], wctx = Some sample_handle, queues = (\<lambda>_. [])\<rparr> =
   (Ok (Some 2), \<lparr>wlog = [SubmitThreadpoolWork 11, WakeTask 9, WakeTask 9], wctx = None,
      queues = (\<lambda>_. [])(high_queue := [Push (1, sample_handle)])\<rparr>)"
proof -
  let ?w = "\<lparr>wlog = [], wctx = Some sample_handle, queues = (\<lambda>_. [])\<rparr> :: ex_world"
  let ?env = "(\<lambda>n. ([\<lambda>s. s, \<lambda>s. snd (wake s)], \<lambda>w. w\<lparr>wlog := wlog w @ [WakeTask 9]\<rparr>))
    :: nat \<Rightarrow> (u32 \<Rightarrow> u32) list \<times> (ex_world \<Rightarrow> ex_world)"
  let ?v = "\<lambda>n. \<lparr>wlog = SubmitThreadpoolWork 11 # replicate n (WakeTask 9), wctx = Some sample_handle,
      queues = (\<lambda>_. [])(high_queue := [Push (1, sample_handle)])\<rparr> :: ex_world"
  have 0: "?v 0 = snd (run_state (handle_spawn (sample_platform (\<lambda>c. 0)) fifo_queue sample_handle 1) ?w)"
    using run_push_task [OF fifo_queue_law] by (simp add: handle_spawn_def run_qmark sample_handle_def)
  have two: "replicate 2 (WakeTask 9) = [WakeTask 9, WakeTask 9]"
    by (simp only: numeral_2_eq_2 replicate.simps)
  have "answers_after sample_task ?env 9 1 ?v 0 2 2 (?v 2)"
    by (simp add: answers_after_def sample_task_def replicate_append_same less_2_cases_iff two)
  from block_on_returns_output [where pre = "[\<lambda>s. s]" and post = "[]", OF fifo_queue_law 0 this, of 5]
  show ?thesis by (simp add: sample_task_def two)
qed

text \<open>
  Property: \<open>yield_now\<close> gives up the thread exactly once: its first poll wakes the task once
  and answers \<open>Pending\<close>, its second poll makes no call and answers \<open>Ready\<close>.
\<close>

theorem yield_now_once:
  "let (r1, w1) = run_state (yield_now_poll p cx yield_now) w;
       (r2, w2) = run_state (yield_now_poll p cx' (snd r1)) w1
   in fst r1 = Pending \<and> wlog w1 = wlog w @ [WakeTask cx] \<and> fst r2 = Ready () \<and> w2 = w1"
  by (simp add: yield_now_poll_def yield_now_def run_simps)

end
