(* ===== verification/Raw_Waker.thy ===== *)
theory Raw_Waker
  imports Waker
begin

text \<open>
  \<open>get_waker\<close> and the functions behind the \<open>Waker\<close> it makes (\<open>src/task/waker.rs\<close>). A \<open>Waker\<close> of
  the standard library is a data pointer and a table of functions; cloning it calls a function of
  the table that makes the next pair. The table of \<open>InlineWaker\<close> contains the function that builds
  it, so the value unfolds without end: it is an element of a codatatype.
\<close>

section \<open>The table of functions\<close>

text \<open>The memory behind the pointers: the words of the inline wakers, and the addresses for which
  \<open>WakeByAddressAll\<close> was called.\<close>

record iw_mem =
  iw_words :: "ptr \<Rightarrow> u32"
  iw_woken :: "ptr list"

definition inline_wake :: "ptr \<Rightarrow> iw_mem \<Rightarrow> iw_mem" where
  "inline_wake self m =
     (let (exchanged, s) = wake (iw_words m self)
      in m\<lparr>iw_words := (iw_words m)(self := s),
           iw_woken := iw_woken m @ (if exchanged then [self] else [])\<rparr>)"

text \<open>\<open>RawWaker\<close> with its \<open>RawWakerVTable\<close>, in the order of \<open>RawWakerVTable::new\<close>.\<close>

codatatype raw_waker =
  RawWaker (rw_data: ptr) (vt_clone: "ptr \<Rightarrow> raw_waker") (vt_wake: "ptr \<Rightarrow> iw_mem \<Rightarrow> iw_mem")
    (vt_wake_by_ref: "ptr \<Rightarrow> iw_mem \<Rightarrow> iw_mem") (vt_drop: "ptr \<Rightarrow> iw_mem \<Rightarrow> iw_mem")

definition wake_fn :: "ptr \<Rightarrow> iw_mem \<Rightarrow> iw_mem" where
  "wake_fn p = inline_wake p"

definition drop_fn :: "ptr \<Rightarrow> iw_mem \<Rightarrow> iw_mem" where
  "drop_fn p m = m"

primcorec clone_fn :: "ptr \<Rightarrow> raw_waker" where
  "clone_fn p = RawWaker p (\<lambda>q. clone_fn q) wake_fn wake_fn drop_fn"

definition get_waker :: "ptr \<Rightarrow> raw_waker" where
  "get_waker self = clone_fn self"

section \<open>Using wakers\<close>

text \<open>
  What the owners of a \<open>Waker\<close> can do with it: \<open>clone\<close>, \<open>wake\<close> (which consumes it), \<open>wake_by_ref\<close>,
  and drop. Wakers are numbered in the order they are made; a waker that was consumed is \<open>None\<close>,
  and using it again is not possible in safe code.
\<close>

datatype waker_op = Clone nat | WakeOwned nat | WakeByRef nat | DropWaker nat

type_synonym waker_store = "raw_waker option list \<times> iw_mem"

fun waker_at :: "raw_waker option list \<Rightarrow> nat \<Rightarrow> raw_waker option" where
  "waker_at ws i = (if i < length ws then ws ! i else None)"

fun waker_use :: "waker_op \<Rightarrow> waker_store \<Rightarrow> waker_store option" where
  "waker_use (Clone i) (ws, m) =
     map_option (\<lambda>k. (ws @ [Some (vt_clone k (rw_data k))], m)) (waker_at ws i)"
| "waker_use (WakeOwned i) (ws, m) =
     map_option (\<lambda>k. (ws[i := None], vt_wake k (rw_data k) m)) (waker_at ws i)"
| "waker_use (WakeByRef i) (ws, m) =
     map_option (\<lambda>k. (ws, vt_wake_by_ref k (rw_data k) m)) (waker_at ws i)"
| "waker_use (DropWaker i) (ws, m) =
     map_option (\<lambda>k. (ws[i := None], vt_drop k (rw_data k) m)) (waker_at ws i)"

fun waker_uses :: "waker_op list \<Rightarrow> waker_store \<Rightarrow> waker_store option" where
  "waker_uses [] s = Some s"
| "waker_uses (u # us) s = (case waker_use u s of None \<Rightarrow> None | Some t \<Rightarrow> waker_uses us t)"

fun wakes :: "waker_op \<Rightarrow> bool" where
  "wakes (WakeOwned _) = True"
| "wakes (WakeByRef _) = True"
| "wakes _ = False"

section \<open>Every waker reaches its inline waker\<close>

definition all_of :: "ptr \<Rightarrow> raw_waker option list \<Rightarrow> bool" where
  "all_of a ws \<longleftrightarrow> set ws \<subseteq> {None, Some (get_waker a)}"

lemma get_waker_simps [simp]:
  "rw_data (get_waker a) = a" "vt_clone (get_waker a) = get_waker"
  "vt_wake (get_waker a) = inline_wake" "vt_wake_by_ref (get_waker a) = inline_wake"
  "vt_drop (get_waker a) = (\<lambda>_ m. m)"
  by (auto simp: get_waker_def wake_fn_def drop_fn_def fun_eq_iff)

lemma all_of_append [simp]: "all_of a (ws @ [Some k]) \<longleftrightarrow> all_of a ws \<and> k = get_waker a"
  by (auto simp: all_of_def)

lemma waker_at_all_of: "all_of a ws \<Longrightarrow> waker_at ws i = Some k \<Longrightarrow> k = get_waker a"
  by (auto simp: all_of_def split: if_splits dest!: nth_mem)

lemma all_of_update [simp]: "all_of a ws \<Longrightarrow> all_of a (ws[i := None])"
  unfolding all_of_def by (meson insertI1 set_update_subsetI)

text \<open>The word and the calls after some uses, of which \<open>b\<close> says whether one was a wake.\<close>

definition woken_by :: "bool \<Rightarrow> ptr \<Rightarrow> iw_mem \<Rightarrow> iw_mem" where
  "woken_by b a m = (if b then inline_wake a m else m)"

lemma inline_wake_twice: "inline_wake a (inline_wake a m) = inline_wake a m"
  by (simp add: inline_wake_def wake_def compare_exchange_def)

lemma waker_use_all_of:
  assumes "all_of a ws" and "waker_use u (ws, m) = Some (ws', m')"
  shows "all_of a ws' \<and> m' = woken_by (wakes u) a m"
  using assms
  by (cases u) (auto simp: woken_by_def simp del: waker_at.simps dest!: waker_at_all_of [OF assms(1)])

lemma woken_by_compose: "woken_by b a (woken_by c a m) = woken_by (c \<or> b) a m"
  by (simp add: woken_by_def inline_wake_twice)

lemma waker_uses_all_of:
  "all_of a ws \<Longrightarrow> waker_uses us (ws, m) = Some (ws', m') \<Longrightarrow>
     all_of a ws' \<and> m' = woken_by (list_ex wakes us) a m"
proof (induction us arbitrary: ws m)
  case Nil
  then show ?case by (simp add: woken_by_def)
next
  case (Cons u us)
  then obtain t where t: "waker_use u (ws, m) = Some t" "waker_uses us t = Some (ws', m')"
    by (auto split: option.splits)
  obtain ws1 m1 where "t = (ws1, m1)" by (cases t)
  with t Cons.IH [of ws1 m1] waker_use_all_of [OF Cons.prems(1), of u m ws1 m1] show ?case
    by (simp add: woken_by_compose)
qed

text \<open>
  Property C24: whatever is done with the waker that \<open>get_waker\<close> gives, its clones and their clones:
  all of them wake this \<open>InlineWaker\<close> and no other memory; its word is set, and the sleeping thread
  woken by exactly one call, if and only if some of the uses was a wake; clones and drops have no
  effect. The wait of \<open>block_on\<close> then ends, and otherwise goes on.
\<close>

theorem inline_waker_table:
  assumes "waker_uses us ([Some (get_waker a)], m) = Some (ws, m')" and "iw_words m a = inline_waker_new"
  shows "iw_words m' = (iw_words m)(a := (if list_ex wakes us then 1 else 0)) \<and>
    iw_woken m' = iw_woken m @ (if list_ex wakes us then [a] else []) \<and>
    (inline_wait [\<lambda>_. iw_words m' a] inline_waker_new \<noteq> None \<longleftrightarrow> list_ex wakes us)"
proof -
  have "m' = woken_by (list_ex wakes us) a m"
    using waker_uses_all_of [OF _ assms(1), of a] by (simp add: all_of_def)
  with assms(2) show ?thesis
    by (simp add: woken_by_def inline_wake_def wake_def compare_exchange_def inline_waker_new_def
        inline_wait_def wait_continues_def fun_upd_idem)
qed

theorem inline_waker_table_witness:
  "\<exists>ws m'. waker_uses [Clone 0, Clone 1, DropWaker 0, WakeByRef 2, WakeOwned 1, WakeOwned 2]
      ([Some (get_waker 9)], \<lparr>iw_words = (\<lambda>_. 0), iw_woken = []\<rparr>) = Some (ws, m') \<and>
     iw_words m' 9 = 1 \<and> iw_words m' 8 = 0 \<and> iw_woken m' = [9]"
proof -
  let ?us = "[Clone 0, Clone 1, DropWaker 0, WakeByRef 2, WakeOwned 1, WakeOwned 2]"
  let ?m = "\<lparr>iw_words = (\<lambda>_. 0), iw_woken = []\<rparr>"
  obtain ws m' where run: "waker_uses ?us ([Some (get_waker 9)], ?m) = Some (ws, m')"
    by (simp add: get_waker_def)
  show ?thesis
    using inline_waker_table [OF run] run by (auto simp: inline_waker_new_def)
qed

end
