(* ===== verification/Pool_Life.thy ===== *)
theory Pool_Life
  imports Executor
begin

text \<open>
  How long a pool lives. Every \<open>Handle\<close> (\<open>src/threadpool.rs\<close>) is an owner of the
  \<open>Arc<HandleInner>\<close>, and the last one that is dropped closes the pool. Handles are held by the
  user's code, by the schedule closure of each task (\<open>spawn\<close> of \<open>src/task/spawn.rs\<close>), by the entries
  of the queues (\<open>push_task\<close>), and by running callbacks, which have the handle of the entry and a
  clone of it as the current context of the thread. The operations are first given with the strong
  count of the \<open>Arc\<close> beside the world; then a step relation makes each kind of owner gain and lose
  handles in the order of the code, with any number of threads and tasks; and the operations refine it.
\<close>

section \<open>The operations with the strong count\<close>

type_synonym owned = "ex_world \<times> nat"

definition on_world :: "(ex_world, 'a) state \<Rightarrow> (owned, 'a) state" where
  "on_world m = State (\<lambda>(w, n). case run_state m w of (x, w') \<Rightarrow> (x, (w', n)))"

text \<open>\<open>Handle::clone\<close> clones the \<open>Arc<HandleInner>\<close>; dropping the last \<open>Arc\<close> runs \<open>HandleInner::drop\<close>.\<close>

definition arc_clone :: "(owned, unit) state" where
  "arc_clone = State (\<lambda>(w, n). ((), (w, Suc n)))"

definition arc_release :: "platform \<Rightarrow> handle \<Rightarrow> (owned, unit) state" where
  "arc_release p self = State (\<lambda>(w, n). ((),
     if n = 1 then (snd (run_state (handle_inner_drop p (inner self)) w), 0) else (w, n - 1)))"

text \<open>\<open>queue.push((runnable, self.clone()))\<close>, and the submission.\<close>

definition push_task_owned :: "platform \<Rightarrow> cq_ops \<Rightarrow> handle \<Rightarrow> runnable \<Rightarrow> (owned, unit res) state" where
  "push_task_owned p cq self runnable = do {
     _ \<leftarrow> arc_clone;
     on_world (push_task p cq self runnable) }"

text \<open>\<open>spawn\<close> clones the handle into the schedule closure, which schedules the task once.\<close>

definition handle_spawn_owned :: "platform \<Rightarrow> cq_ops \<Rightarrow> handle \<Rightarrow> runnable \<Rightarrow> (owned, join_handle res) state" where
  "handle_spawn_owned p cq self new_task = do {
     _ \<leftarrow> arc_clone;
     qmark (push_task_owned p cq self new_task)
       (\<lambda>_. State_Monad.return (Ok \<lparr>jh_task = new_task, jh_taken = False\<rparr>)) }"

text \<open>
  The callback owns the handle of the entry it popped, \<open>enter\<close> clones it; at the end the guard
  drops the clone and then the handle goes.
\<close>

definition callback_owned ::
  "platform \<Rightarrow> cq_ops \<Rightarrow> (runnable \<Rightarrow> (owned, unit res) state) \<Rightarrow> ptr \<Rightarrow> queue_id \<Rightarrow> (owned, unit res) state"
  where
  "callback_owned p cq run_task instance context = do {
     popped \<leftarrow> on_world (queue_pop cq context);
     case popped of
       None \<Rightarrow> State_Monad.return (Fault (Panicked ''pop on an empty queue''))
     | Some (runnable, handle) \<Rightarrow>
         (let handle = handle\<lparr>callback_instance := Some instance\<rparr> in do {
            _ \<leftarrow> arc_clone;
            guard \<leftarrow> on_world (enter handle);
            r \<leftarrow> run_task runnable;
            _ \<leftarrow> on_world (context_guard_drop guard);
            _ \<leftarrow> arc_release p handle;
            _ \<leftarrow> arc_release p handle;
            State_Monad.return (catch_unwind r) }) }"

section \<open>Owners\<close>

record pool_life =
  pl_count :: nat \<comment> \<open>the strong count of the \<open>Arc\<close>\<close>
  pl_users :: nat \<comment> \<open>handles held by user code, in tasks or not\<close>
  pl_tasks :: nat \<comment> \<open>tasks that are not freed, each with its schedule closure\<close>
  pl_queued :: nat \<comment> \<open>entries of the three queues\<close>
  pl_running :: nat \<comment> \<open>callbacks between \<open>enter\<close> and the drop of its guard\<close>
  pl_leaving :: nat \<comment> \<open>callbacks between that and the drop of \<open>handle\<close>\<close>
  pl_closed :: nat \<comment> \<open>the runs of \<open>HandleInner::drop\<close>\<close>

text \<open>\<open>build\<close> returns a pool with one handle.\<close>

definition pool_built :: pool_life where
  "pool_built = \<lparr>pl_count = 1, pl_users = 1, pl_tasks = 0, pl_queued = 0, pl_running = 0,
     pl_leaving = 0, pl_closed = 0\<rparr>"

definition handle_clone :: "pool_life \<Rightarrow> pool_life" where
  "handle_clone s = s\<lparr>pl_count := pl_count s + 1\<rparr>"

definition handle_drop :: "pool_life \<Rightarrow> pool_life" where
  "handle_drop s = s\<lparr>pl_count := pl_count s - 1,
     pl_closed := pl_closed s + (if pl_count s = 1 then 1 else 0)\<rparr>"

text \<open>
  \<^item> \<open>clone\<close>, \<open>drop_user\<close>: user code clones a handle it has, or the current one, and drops handles.
  \<^item> \<open>spawn\<close>: one clone for the schedule closure, one for the entry that \<open>push_task\<close> makes.
  \<^item> \<open>wake\<close>: a task that is not queued is scheduled again, by its closure.
  \<^item> \<open>start\<close>: a callback pops an entry, with its handle, and enters a clone of it.
  \<^item> \<open>free\<close>: the last reference to a task that is not queued goes, and its closure with it.
  \<^item> \<open>leave\<close>, \<open>finish\<close>: the callback drops the guard, and with it the clone, and then the handle.

  Handles of user code and tasks can also go inside a callback, while its task runs.
\<close>

inductive life_step :: "pool_life \<Rightarrow> pool_life \<Rightarrow> bool" where
  clone: "0 < pl_users s \<or> 0 < pl_running s \<Longrightarrow>
    life_step s (handle_clone (s\<lparr>pl_users := pl_users s + 1\<rparr>))"
| drop_user: "0 < pl_users s \<Longrightarrow>
    life_step s (handle_drop (s\<lparr>pl_users := pl_users s - 1\<rparr>))"
| spawn: "0 < pl_users s \<or> 0 < pl_running s \<Longrightarrow>
    life_step s (handle_clone (handle_clone (s\<lparr>pl_tasks := pl_tasks s + 1, pl_queued := pl_queued s + 1\<rparr>)))"
| wake: "pl_queued s < pl_tasks s \<Longrightarrow>
    life_step s (handle_clone (s\<lparr>pl_queued := pl_queued s + 1\<rparr>))"
| start: "0 < pl_queued s \<Longrightarrow>
    life_step s (handle_clone (s\<lparr>pl_queued := pl_queued s - 1, pl_running := pl_running s + 1\<rparr>))"
| free: "pl_queued s < pl_tasks s \<Longrightarrow>
    life_step s (handle_drop (s\<lparr>pl_tasks := pl_tasks s - 1\<rparr>))"
| leave: "0 < pl_running s \<Longrightarrow>
    life_step s (handle_drop (s\<lparr>pl_running := pl_running s - 1, pl_leaving := pl_leaving s + 1\<rparr>))"
| finish: "0 < pl_leaving s \<Longrightarrow>
    life_step s (handle_drop (s\<lparr>pl_leaving := pl_leaving s - 1\<rparr>))"

inductive_cases life_stepE: "life_step s t"

section \<open>The count is right\<close>

definition owners :: "pool_life \<Rightarrow> nat" where
  "owners s = pl_users s + pl_tasks s + pl_queued s + 2 * pl_running s + pl_leaving s"

definition life_inv :: "pool_life \<Rightarrow> bool" where
  "life_inv s \<longleftrightarrow> pl_count s = owners s \<and> pl_queued s \<le> pl_tasks s \<and>
     pl_closed s = (if owners s = 0 then 1 else 0)"

lemma life_inv_built: "life_inv pool_built"
  by (simp add: life_inv_def pool_built_def owners_def)

lemma life_step_inv: "life_step s t \<Longrightarrow> life_inv s \<Longrightarrow> life_inv t"
  by (induction rule: life_step.induct)
    (auto simp: life_inv_def owners_def handle_clone_def handle_drop_def split: if_splits)

lemma life_run_inv: "life_step\<^sup>*\<^sup>* s t \<Longrightarrow> life_inv s \<Longrightarrow> life_inv t"
  by (induction rule: rtranclp_induct) (auto intro: life_step_inv)

text \<open>Without owners there is no step any more.\<close>

lemma life_step_owned: "life_step s t \<Longrightarrow> life_inv s \<Longrightarrow> owners s \<noteq> 0"
  by (erule life_stepE) (auto simp: life_inv_def owners_def)

section \<open>Properties\<close>

text \<open>
  Property C15: a pool is closed exactly once, and not too early. In every interleaving of user code,
  wake-ups and callbacks the pool is open as long as a handle, a task that is not freed, an entry
  of a queue or a running callback is left, and when the last of them has gone it has been closed
  once. So no task that was spawned is lost by dropping the pool.
\<close>

theorem pool_closed_after_last_owner:
  assumes "life_step\<^sup>*\<^sup>* pool_built s"
  shows "pl_closed s \<le> 1 \<and>
    (pl_closed s = 0 \<longleftrightarrow> 0 < pl_users s \<or> 0 < pl_tasks s \<or> 0 < pl_queued s \<or> 0 < pl_running s \<or> 0 < pl_leaving s)"
  using life_run_inv [OF assms life_inv_built] by (auto simp: life_inv_def owners_def split: if_splits)

section \<open>The operations refine the steps\<close>

lemma run_on_world [run_simps]:
  "run_state (on_world m) (w, n) = (fst (run_state m w), (snd (run_state m w), n))"
  by (simp add: on_world_def split_beta)

lemma run_arc_clone [run_simps]: "run_state arc_clone (w, n) = ((), (w, Suc n))"
  by (simp add: arc_clone_def)

lemma run_arc_release [run_simps]:
  "run_state (arc_release p h) (w, n) =
     ((), (w\<lparr>wlog := wlog w @ (if n = 1 then close_calls (inner_environ (inner h)) else [])\<rparr>, n - 1))"
  by (simp add: arc_release_def handle_inner_drop_def run_simps close_calls_def)

definition queued :: "ex_world \<Rightarrow> nat" where
  "queued w = length (contents (queues w high_queue)) + length (contents (queues w normal_queue)) +
     length (contents (queues w low_queue))"

text \<open>
  The world and the strong count of the pool \<open>i\<close> against its owners: the count, the entries of the
  queues, all of them with handles of this pool, and the calls that close the pool.
\<close>

definition life_rel :: "handle_inner \<Rightarrow> owned \<Rightarrow> pool_life \<Rightarrow> bool" where
  "life_rel i = (\<lambda>(w, n) s. pl_count s = n \<and> pl_queued s = queued w \<and>
     pl_closed s = count_list (wlog w) (CloseThreadpool (Pool (inner_environ i))) \<and>
     (\<forall>q. \<forall>x \<in> set (contents (queues w q)). inner (snd x) = i))"

lemma queued_push:
  "queued (w\<lparr>wlog := l, queues := (queues w)(q := queues w q @ [Push x])\<rparr>) = Suc (queued w)"
  by (cases q) (simp_all add: queued_def)

lemma queued_pop:
  "contents (queues w q) = x # xs \<Longrightarrow>
     queued (w\<lparr>queues := (queues w)(q := queues w q @ [Pop]), wctx := c\<rparr>) = queued w - 1"
  by (cases q) (simp_all add: queued_def)

lemma set_tl: "x \<in> set (tl xs) \<Longrightarrow> x \<in> set xs"
  by (cases xs) simp_all

lemma queued_frame [simp]: "queued (w\<lparr>wlog := l\<rparr>) = queued w" "queued (w\<lparr>wctx := c\<rparr>) = queued w"
  by (simp_all add: queued_def)

lemma queued_pos: "contents (queues w q) = x # xs \<Longrightarrow> 0 < queued w"
  by (cases q) (simp_all add: queued_def)

lemma count_close_calls [simp]:
  "count_list (close_calls ce) (CloseThreadpool (Pool ce)) = 1"
  by (simp add: close_calls_def)

text \<open>One drop of an owner, whichever it is.\<close>

lemma life_rel_release:
  assumes "life_rel i x s" and "inner h = i"
    and "pl_count t = pl_count s" and "pl_queued t = pl_queued s" and "pl_closed t = pl_closed s"
  shows "life_rel i (snd (run_state (arc_release p h) x)) (handle_drop t)"
  using assms by (cases x) (auto simp: life_rel_def handle_drop_def run_simps)

lemma run_push_task_owned:
  assumes "queue_law cq"
  shows "run_state (push_task_owned p cq h r) (w, n) =
    (Ok (), (w\<lparr>wlog := wlog w @ [SubmitThreadpoolWork (work_of (inner h) (queue_of (h_priority h)))],
        queues := (queues w)(queue_of (h_priority h) :=
           queues w (queue_of (h_priority h)) @ [Push (r, h)])\<rparr>, Suc n))"
  using assms by (simp add: push_task_owned_def run_simps run_push_task)

lemma life_rel_push:
  assumes "queue_law cq" and "life_rel i (w, n) s" and "inner h = i"
  shows "life_rel i (snd (run_state (push_task_owned p cq h r) (w, n)))
    (handle_clone (s\<lparr>pl_queued := pl_queued s + 1\<rparr>))"
  using assms(2,3)
  by (auto simp: life_rel_def handle_clone_def run_push_task_owned [OF assms(1)] queued_push split: if_splits)

lemma spawn_owned_world:
  assumes "queue_law cq"
  shows "run_state (handle_spawn_owned p cq h r) (w, n) =
    (Ok \<lparr>jh_task = r, jh_taken = False\<rparr>, snd (run_state (push_task_owned p cq h r) (w, Suc n)))"
  using run_push_task_owned [OF assms] by (simp add: handle_spawn_owned_def run_simps)

lemma life_rel_spawn:
  assumes "queue_law cq" and "life_rel i (w, n) s" and "inner h = i"
  shows "life_rel i (snd (run_state (handle_spawn_owned p cq h r) (w, n)))
    (handle_clone (handle_clone (s\<lparr>pl_tasks := pl_tasks s + 1, pl_queued := pl_queued s + 1\<rparr>)))"
proof -
  let ?s = "handle_clone (s\<lparr>pl_tasks := pl_tasks s + 1\<rparr>)"
  have "life_rel i (w, Suc n) ?s" using assms(2) by (simp add: life_rel_def handle_clone_def)
  from life_rel_push [OF assms(1) this assms(3), of p r] show ?thesis
    by (simp add: spawn_owned_world [OF assms(1)] handle_clone_def)
qed

text \<open>The state in which a callback runs its task, and what it leaves when the task has run.\<close>

definition in_callback :: "handle \<Rightarrow> ptr \<Rightarrow> queue_id \<Rightarrow> owned \<Rightarrow> owned" where
  "in_callback h instance q = (\<lambda>(w, n). (w\<lparr>queues := (queues w)(q := queues w q @ [Pop]),
     wctx := Some (h\<lparr>callback_instance := Some instance\<rparr>)\<rparr>, Suc n))"

definition started :: "pool_life \<Rightarrow> pool_life" where
  "started s = handle_clone (s\<lparr>pl_queued := pl_queued s - 1, pl_running := pl_running s + 1\<rparr>)"

lemma life_rel_in_callback:
  assumes "life_rel i (w, n) s" and "contents (queues w q) = x # xs"
  shows "life_rel i (in_callback h instance q (w, n)) (started s)"
proof -
  have "pl_queued (started s) = queued (fst (in_callback h instance q (w, n)))"
    using assms(1) queued_pop [OF assms(2)] by (simp add: started_def handle_clone_def life_rel_def in_callback_def)
  moreover have "\<forall>q'. \<forall>x \<in> set (contents (queues (fst (in_callback h' instance q (w, n))) q')). inner (snd x) = i" for h'
    using assms(1) by (auto simp: life_rel_def in_callback_def dest: set_tl)
  ultimately show ?thesis
    using assms(1) by (auto simp: life_rel_def handle_clone_def in_callback_def started_def)
qed

lemma run_callback_owned:
  assumes "queue_law cq" and "contents (queues w q) = (r, h) # xs"
    and "run_state (run_task r) (in_callback h instance q (w, n)) = (x, (w2, n2))"
  shows "run_state (callback_owned p cq run_task instance q) (w, n) = (catch_unwind x,
    snd (run_state (arc_release p h) (snd (run_state (arc_release p h) (w2\<lparr>wctx := wctx w\<rparr>, n2)))))"
proof -
  have "cq_pop cq (queues w q) = Some (r, h)" using assms(1,2) by (simp add: queue_law_def)
  then show ?thesis
    using assms(3) by (simp add: callback_owned_def run_simps in_callback_def Let_def)
qed

lemma callback_owned_leaves:
  assumes "life_rel i (w2, n2) u" and "life_inv u" and "0 < pl_running u" and "inner h = i"
  shows "\<exists>v. (life_step OO life_step) u v \<and> pl_running v = pl_running u - 1 \<and>
    life_rel i (snd (run_state (arc_release p h) (snd (run_state (arc_release p h) (w2\<lparr>wctx := c\<rparr>, n2))))) v"
proof -
  let ?t = "handle_drop (u\<lparr>pl_running := pl_running u - 1, pl_leaving := pl_leaving u + 1\<rparr>)"
  let ?v = "handle_drop (?t\<lparr>pl_leaving := pl_leaving ?t - 1\<rparr>)"
  have steps: "life_step u ?t" "life_step ?t ?v"
    using life_step.leave [OF assms(3)] life_step.finish [of ?t] by (auto simp: handle_drop_def)
  have "life_rel i (w2\<lparr>wctx := c\<rparr>, n2) u" using assms(1) by (simp add: life_rel_def)
  then have "life_rel i (snd (run_state (arc_release p h) (w2\<lparr>wctx := c\<rparr>, n2))) ?t"
    by (rule life_rel_release [OF _ assms(4)]) simp_all
  then have "life_rel i (snd (run_state (arc_release p h) (snd (run_state (arc_release p h) (w2\<lparr>wctx := c\<rparr>, n2))))) ?v"
    by (rule life_rel_release [OF _ assms(4)]) simp_all
  with steps show ?thesis by (intro exI [of _ ?v]) (auto simp: handle_drop_def)
qed

text \<open>
  Property C34: the operations refine the steps of the owners. Take a world, the strong count of its
  \<open>Arc\<close> and the owners of a pool in a reachable state that agree. Then cloning a handle is the step
  \<open>clone\<close>; dropping one is the step \<open>drop_user\<close>, or \<open>free\<close> when it is the handle of a task's schedule closure,
  and makes the closing calls exactly at the count 1; spawning is the step \<open>spawn\<close>,
  scheduling a task again the step \<open>wake\<close>; a callback that pops an entry is the step \<open>start\<close>, what its
  task does, and the steps \<open>leave\<close> and \<open>finish\<close>. So the counts that the steps keep are those of the code,
  and when the task has left the two handles of the callback as the last ones, it is the callback
  itself that calls \<open>CloseThreadpoolCleanupGroupMembers\<close>, which waits for running callbacks.
\<close>

theorem owners_refine_life:
  assumes "queue_law cq" and "life_step\<^sup>*\<^sup>* pool_built s" and "life_rel i (w, n) s" and "inner h = i"
  shows "(0 < pl_users s \<or> 0 < pl_running s \<longrightarrow> (\<exists>t. life_step s t \<and> pl_users t = Suc (pl_users s) \<and>
      life_rel i (snd (run_state arc_clone (w, n))) t)) \<and>
    (pl_queued s < pl_tasks s \<longrightarrow> (\<exists>t. life_step s t \<and> pl_tasks t = pl_tasks s - 1 \<and>
      life_rel i (snd (run_state (arc_release p h) (w, n))) t)) \<and>
    (0 < pl_users s \<longrightarrow> (\<exists>t. life_step s t \<and> pl_users t = pl_users s - 1 \<and>
      life_rel i (snd (run_state (arc_release p h) (w, n))) t)) \<and>
    wlog (fst (snd (run_state (arc_release p h) (w, n)))) = wlog w @ (if n = 1 then close_calls (inner_environ i) else []) \<and>
    (0 < pl_users s \<or> 0 < pl_running s \<longrightarrow> (\<exists>t. life_step s t \<and> pl_tasks t = Suc (pl_tasks s) \<and>
      life_rel i (snd (run_state (handle_spawn_owned p cq h r) (w, n))) t)) \<and>
    (pl_queued s < pl_tasks s \<longrightarrow> (\<exists>t. life_step s t \<and> pl_tasks t = pl_tasks s \<and>
      life_rel i (snd (run_state (push_task_owned p cq h r) (w, n))) t)) \<and>
    (\<forall>xs x w2 n2. contents (queues w q) = (r, h) # xs \<longrightarrow>
      run_state (run_task r) (in_callback h inst q (w, n)) = (x, (w2, n2)) \<longrightarrow>
      life_step s (started s) \<and> life_rel i (in_callback h inst q (w, n)) (started s) \<and>
      (\<forall>u. life_step\<^sup>*\<^sup>* (started s) u \<longrightarrow> life_rel i (w2, n2) u \<longrightarrow> 0 < pl_running u \<longrightarrow>
        (\<exists>v. (life_step OO life_step) u v \<and> pl_running v = pl_running u - 1 \<and>
          life_rel i (snd (run_state (callback_owned p cq run_task inst q) (w, n))) v) \<and>
        run_state (callback_owned p cq run_task inst q) (w, n) = (catch_unwind x,
          (w2\<lparr>wctx := wctx w, wlog := wlog w2 @ (if n2 = 2 then close_calls (inner_environ i) else [])\<rparr>, n2 - 2))))"
proof (intro conjI impI allI)
  assume "0 < pl_users s \<or> 0 < pl_running s"
  from life_step.clone [OF this] assms(3)
  show "\<exists>t. life_step s t \<and> pl_users t = Suc (pl_users s) \<and> life_rel i (snd (run_state arc_clone (w, n))) t"
    by (intro exI [of _ "handle_clone (s\<lparr>pl_users := pl_users s + 1\<rparr>)"])
      (simp add: handle_clone_def run_simps life_rel_def)
next
  assume "pl_queued s < pl_tasks s"
  from life_step.free [OF this] life_rel_release [OF assms(3,4), of "s\<lparr>pl_tasks := pl_tasks s - 1\<rparr>" p]
  show "\<exists>t. life_step s t \<and> pl_tasks t = pl_tasks s - 1 \<and> life_rel i (snd (run_state (arc_release p h) (w, n))) t"
    by (intro exI [of _ "handle_drop (s\<lparr>pl_tasks := pl_tasks s - 1\<rparr>)"]) (simp add: handle_drop_def)
next
  assume "0 < pl_users s"
  from life_step.drop_user [OF this] life_rel_release [OF assms(3,4), of "s\<lparr>pl_users := pl_users s - 1\<rparr>" p]
  show "\<exists>t. life_step s t \<and> pl_users t = pl_users s - 1 \<and> life_rel i (snd (run_state (arc_release p h) (w, n))) t"
    by (intro exI [of _ "handle_drop (s\<lparr>pl_users := pl_users s - 1\<rparr>)"]) (simp add: handle_drop_def)
next
  show "wlog (fst (snd (run_state (arc_release p h) (w, n)))) = wlog w @ (if n = 1 then close_calls (inner_environ i) else [])"
    using assms(4) by (simp add: run_simps)
next
  assume "0 < pl_users s \<or> 0 < pl_running s"
  from life_step.spawn [OF this] life_rel_spawn [OF assms(1,3,4), of p r]
  show "\<exists>t. life_step s t \<and> pl_tasks t = Suc (pl_tasks s) \<and> life_rel i (snd (run_state (handle_spawn_owned p cq h r) (w, n))) t"
    by (intro exI conjI) (assumption, simp_all add: handle_clone_def)
next
  assume "pl_queued s < pl_tasks s"
  from life_step.wake [OF this] life_rel_push [OF assms(1,3,4), of p r]
  show "\<exists>t. life_step s t \<and> pl_tasks t = pl_tasks s \<and> life_rel i (snd (run_state (push_task_owned p cq h r) (w, n))) t"
    by (intro exI conjI) (assumption, simp_all add: handle_clone_def)
next
  fix xs x w2 n2
  assume xs: "contents (queues w q) = (r, h) # xs"
    and run: "run_state (run_task r) (in_callback h inst q (w, n)) = (x, (w2, n2))"
  show start: "life_step s (started s)"
    using assms(3) queued_pos [OF xs] unfolding started_def by (intro life_step.start) (simp add: life_rel_def)
  show "life_rel i (in_callback h inst q (w, n)) (started s)" by (rule life_rel_in_callback [OF assms(3) xs])
  fix u
  assume u: "life_step\<^sup>*\<^sup>* (started s) u" "life_rel i (w2, n2) u" "0 < pl_running u"
  have inv: "life_inv u"
    using life_run_inv [OF u(1)] life_step_inv [OF start] life_run_inv [OF assms(2) life_inv_built] by blast
  then have two: "2 \<le> n2" using u(2,3) by (simp add: life_inv_def life_rel_def owners_def)
  note run_callback = run_callback_owned [where run_task = run_task, OF assms(1) xs run, of p]
  show "\<exists>v. (life_step OO life_step) u v \<and> pl_running v = pl_running u - 1 \<and>
      life_rel i (snd (run_state (callback_owned p cq run_task inst q) (w, n))) v"
    using callback_owned_leaves [OF u(2) inv u(3) assms(4), of p "wctx w"] by (simp add: run_callback)
  show "run_state (callback_owned p cq run_task inst q) (w, n) = (catch_unwind x,
      (w2\<lparr>wctx := wctx w, wlog := wlog w2 @ (if n2 = 2 then close_calls (inner_environ i) else [])\<rparr>, n2 - 2))"
    using two assms(4) by (auto simp: run_callback run_simps)
qed

text \<open>A task is spawned and detached, and the pool is dropped; the task runs to its end.\<close>

definition life_of :: "nat \<Rightarrow> nat \<Rightarrow> nat \<Rightarrow> nat \<Rightarrow> nat \<Rightarrow> nat \<Rightarrow> pool_life" where
  "life_of c u t q r l = \<lparr>pl_count = c, pl_users = u, pl_tasks = t, pl_queued = q, pl_running = r,
     pl_leaving = l, pl_closed = 0\<rparr>"

lemma detached_task_queued: "life_step\<^sup>*\<^sup>* pool_built (life_of 2 0 1 1 0 0)"
proof -
  note defs = life_of_def handle_clone_def handle_drop_def
  have 1: "life_step (life_of 1 1 0 0 0 0) (life_of 3 1 1 1 0 0)"
    using life_step.spawn [of "life_of 1 1 0 0 0 0"] by (simp add: defs numeral_3_eq_3)
  have 2: "life_step (life_of 3 1 1 1 0 0) (life_of 2 0 1 1 0 0)"
    using life_step.drop_user [of "life_of 3 1 1 1 0 0"] by (simp add: defs)
  have "pool_built = life_of 1 1 0 0 0 0" by (simp add: life_of_def pool_built_def)
  then show ?thesis
    using r_into_rtranclp [of life_step, OF 1, THEN rtranclp.rtrancl_into_rtrancl, OF 2] by simp
qed

theorem pool_closed_after_last_owner_witness:
  "pl_closed (life_of 2 0 1 1 0 0) = 0 \<and> 0 < pl_tasks (life_of 2 0 1 1 0 0)"
  using pool_closed_after_last_owner [OF detached_task_queued] by (simp add: life_of_def)

text \<open>The callback frees the task, and so its two handles are the last: it closes the pool itself.\<close>

theorem owners_refine_life_witness:
  "run_state (callback_owned (sample_platform (\<lambda>c. 0)) fifo_queue
       (\<lambda>r. do { _ \<leftarrow> arc_release (sample_platform (\<lambda>c. 0)) sample_handle; State_Monad.return (Ok ()) }) 99 high_queue)
     (\<lparr>wlog = [], wctx = None, queues = (\<lambda>_. [])(high_queue := [Push (1, sample_handle)])\<rparr>, 2) =
   (Ok (), (\<lparr>wlog = [CloseThreadpoolCleanupGroupMembers 5, CloseThreadpoolCleanupGroup 5, CloseThreadpool 4],
      wctx = None, queues = (\<lambda>_. [])(high_queue := [Push (1, sample_handle), Pop])\<rparr>, 0))"
proof -
  let ?p = "sample_platform (\<lambda>c. 0)"
  let ?i = "inner sample_handle"
  let ?run = "\<lambda>r :: runnable. do { _ \<leftarrow> arc_release ?p sample_handle; State_Monad.return (Ok () :: unit res) }"
  let ?w = "\<lparr>wlog = [], wctx = None, queues = (\<lambda>_. [])(high_queue := [Push (1, sample_handle)])\<rparr> :: ex_world"
  let ?s = "life_of 2 0 1 1 0 0"
  let ?u = "life_of 2 0 0 0 1 0"
  have rel: "life_rel ?i (?w, 2) ?s"
    by (simp add: life_rel_def life_of_def queued_def contents_def)
  obtain w2 where ran: "run_state (?run 1) (in_callback sample_handle 99 high_queue (?w, 2)) = (Ok (), (w2, 2))"
    and w2: "w2 = fst (in_callback sample_handle 99 high_queue (?w, 2))"
    by (simp add: run_simps in_callback_def)
  have "life_step (started ?s) ?u"
    using life_step.free [of "started ?s"] by (simp add: started_def life_of_def handle_clone_def handle_drop_def)
  then have u: "life_step\<^sup>*\<^sup>* (started ?s) ?u" by blast
  have rel_u: "life_rel ?i (w2, 2) ?u" "0 < pl_running ?u"
    by (simp_all add: life_rel_def life_of_def queued_def contents_def w2 in_callback_def)
  have "contents (queues ?w high_queue) = [(1, sample_handle)]" by (simp add: contents_def)
  with owners_refine_life [OF fifo_queue_law detached_task_queued rel refl, of ?p 1 high_queue ?run 99] ran u rel_u
  have "run_state (callback_owned ?p fifo_queue ?run 99 high_queue) (?w, 2) =
    (catch_unwind (Ok ()), (w2\<lparr>wctx := wctx ?w, wlog := wlog w2 @ close_calls (inner_environ ?i)\<rparr>, 0))"
    by fastforce
  then show ?thesis by (simp add: w2 in_callback_def close_calls_def sample_handle_def)
qed

end
