(* ===== verification/Macros.thy ===== *)
theory Macros
  imports Threadpool
begin

text \<open>
  \<open>macros/src/lib.rs\<close>: the attribute macros \<open>wae::main\<close> and \<open>wae::test\<close>. The parsers of the crates
  \<open>syn\<close> and \<open>darling\<close> are not part of the repository: the macros are functions of what they give.
  Tokens are an abstract type \<open>'t\<close>; the output keeps them and the calls on the builder it makes.
\<close>

section \<open>Expansion\<close>

record 't entry_args =
  arg_max_threads :: "u32 option"
  arg_min_threads :: "u32 option"
  arg_path :: "'t option"

record 't item_fn =
  fn_attrs :: "'t list"
  fn_vis :: 't
  fn_async :: bool \<comment> \<open>\<open>sig.asyncness\<close>\<close>
  fn_sig :: 't \<comment> \<open>the rest of the signature\<close>
  fn_block :: 't

datatype builder_call = CallMaxThreads u32 | CallMinThreads u32

text \<open>
  The generated function: the path \<open>::wae\<close> is \<open>None\<close>; its body is
  \<open>path::Threadpool::builder() calls .build().unwrap().block_on(async block)\<close>.
\<close>

record 't expansion =
  ex_test :: bool \<comment> \<open>the header \<open>#[::core::prelude::v1::test]\<close>\<close>
  ex_attrs :: "'t list"
  ex_vis :: 't
  ex_sig :: 't
  ex_path :: "'t option"
  ex_calls :: "builder_call list"
  ex_block :: 't

datatype 't token_stream = Expanded "'t expansion" | CompileError string

definition entry :: "'t entry_args \<Rightarrow> 't item_fn \<Rightarrow> bool \<Rightarrow> string + 't expansion" where
  "entry args input tst =
     (if \<not> fn_async input then Inl ''the async keyword is missing from the function declaration''
      else Inr \<lparr>ex_test = tst, ex_attrs = fn_attrs input, ex_vis = fn_vis input, ex_sig = fn_sig input,
        ex_path = arg_path args,
        ex_calls =
          (case arg_max_threads args of Some maximum \<Rightarrow> [CallMaxThreads maximum] | None \<Rightarrow> []) @
          (case arg_min_threads args of Some minimum \<Rightarrow> [CallMinThreads minimum] | None \<Rightarrow> []),
        ex_block = fn_block input\<rparr>)"

text \<open>\<open>EntryArgs::from_list\<close> gives the arguments or an error that is written out.\<close>

definition macro_main :: "string + 't entry_args \<Rightarrow> 't item_fn \<Rightarrow> 't token_stream" where
  "macro_main args input =
     (case args of
        Inl err \<Rightarrow> CompileError err
      | Inr a \<Rightarrow> (case entry a input False of Inr ts \<Rightarrow> Expanded ts | Inl err \<Rightarrow> CompileError err))"

definition macro_test :: "string + 't entry_args \<Rightarrow> 't item_fn \<Rightarrow> 't token_stream" where
  "macro_test args input =
     (case args of
        Inl err \<Rightarrow> CompileError err
      | Inr a \<Rightarrow> (case entry a input True of Inr ts \<Rightarrow> Expanded ts | Inl err \<Rightarrow> CompileError err))"

section \<open>What the generated code builds\<close>

fun call_builder :: "builder_call \<Rightarrow> builder \<Rightarrow> builder" where
  "call_builder (CallMaxThreads n) b = builder_max_threads b n"
| "call_builder (CallMinThreads n) b = builder_min_threads b n"

text \<open>\<open>Threadpool::builder() calls .build().unwrap()\<close>.\<close>

definition expansion_pool :: "platform \<Rightarrow> 't expansion \<Rightarrow> ('z wae, threadpool res) state" where
  "expansion_pool p e = do {
     b \<leftarrow> builder_new p;
     r \<leftarrow> build p (fold call_builder (ex_calls e) b);
     State_Monad.return (unwrap r) }"

text \<open>
  Property: the thread counts of \<open>#[wae::main(max_threads = m, min_threads = n)]\<close>. An \<open>async fn\<close>
  expands to a function that builds a pool; the first two calls on the new pool set its maximum
  to \<open>n\<close>, the minimum asked for, and its minimum to \<open>m\<close>, the maximum asked for.
\<close>

theorem entry_bounds_exchanged:
  fixes input :: "'t item_fn" and p :: platform and w :: "'z wae"
  assumes "fn_async input"
    and "macro_main (Inr \<lparr>arg_max_threads = Some m, arg_min_threads = Some n, arg_path = pth\<rparr>) input = Expanded e"
    and "win p (wlog w @ [GetSystemInfo]) CreateThreadpool = pool" and "pool \<noteq> 0"
  shows "\<not> ex_test e \<and> ex_block e = fn_block input \<and>
    take 4 (calls_of (expansion_pool p e) w) =
      [GetSystemInfo, CreateThreadpool, SetThreadpoolThreadMaximum pool n, SetThreadpoolThreadMinimum pool m]"
proof -
  have e: "\<not> ex_test e" "ex_block e = fn_block input" "ex_calls e = [CallMaxThreads m, CallMinThreads n]"
    using assms(1,2) by (auto simp: macro_main_def entry_def)
  let ?w = "w\<lparr>wlog := wlog w @ [GetSystemInfo]\<rparr>"
  let ?b = "\<lparr>max_threads = n, min_threads = m, net = True\<rparr>"
  have new: "run_state (expansion_pool p e) w = (let (r, w') = run_state (build p ?b) ?w in (unwrap r, w'))"
    by (simp add: expansion_pool_def e builder_new_def run_simps builder_min_threads_def
        builder_max_threads_def Let_def split: prod.split)
  show ?thesis
    by (cases rule: build_cases [of p ?w ?b])
      (use assms(3,4) e(1,2) in \<open>auto simp: calls_of_def new setup_calls_def Let_def\<close>)
qed

theorem entry_bounds_exchanged_witness:
  "take 4 (calls_of (expansion_pool (sample_platform (\<lambda>c. 7))
     \<lparr>ex_test = False, ex_attrs = [], ex_vis = (), ex_sig = (), ex_path = None,
      ex_calls = [CallMaxThreads 16, CallMinThreads 2], ex_block = ()\<rparr>) (\<lparr>wlog = [], wctx = None\<rparr> :: handle world)) =
    [GetSystemInfo, CreateThreadpool, SetThreadpoolThreadMaximum 7 2, SetThreadpoolThreadMinimum 7 16]"
  using entry_bounds_exchanged [of "\<lparr>fn_attrs = [], fn_vis = (), fn_async = True, fn_sig = (), fn_block = ()\<rparr>" 16 2
      None "\<lparr>ex_test = False, ex_attrs = [], ex_vis = (), ex_sig = (), ex_path = None,
        ex_calls = [CallMaxThreads 16, CallMinThreads 2], ex_block = ()\<rparr>" "sample_platform (\<lambda>c. 7)"
      "\<lparr>wlog = [], wctx = None\<rparr> :: handle world" 7]
  by (simp add: macro_main_def entry_def)

end
