(* ===== verification/Io_State.thy ===== *)
theory Io_State
  imports Wae_Prelude
begin

text \<open>
  \<open>src/io/shared/state.rs\<close>: the atomic word that drives one overlapped operation, and
  \<open>src/io/shared/result.rs\<close>: the cell that carries its outcome from the completion
  callback to the poller.

  Every operation on the word is one atomic step, so it is a function of the word that
  returns the new word beside its answer. (Memory orderings are not modelled: steps are
  sequentially consistent.) The seven values are abstracted to the datatype \<open>phase\<close>; the
  locale \<open>io_cell\<close> is the interface the event, the handle and the interleaving model
  rely on.
\<close>

section \<open>The atomic word\<close>

definition IDLE :: usize where "IDLE = 0"
definition SCHEDULING :: usize where "SCHEDULING = 1"
definition PENDING :: usize where "PENDING = 2"
definition CALLBACK :: usize where "CALLBACK = 3"
definition READY :: usize where "READY = 4"
definition CANCELLED_NOWAIT :: usize where "CANCELLED_NOWAIT = 5"
definition CANCELLED_WAIT :: usize where "CANCELLED_WAIT = 6"

definition io_state_new :: usize where
  "io_state_new = IDLE"

definition set_idle :: "usize \<Rightarrow> usize" where
  "set_idle s = IDLE"

definition schedule :: "usize \<Rightarrow> bool \<times> usize" where
  "schedule = compare_exchange IDLE SCHEDULING"

definition set_pending :: "usize \<Rightarrow> usize" where
  "set_pending s = PENDING"

definition cancel :: "bool \<Rightarrow> usize \<Rightarrow> bool \<times> usize" where
  "cancel wait old =
     (if \<not> wait then (old \<noteq> CANCELLED_NOWAIT, CANCELLED_NOWAIT)
      else (old \<noteq> CANCELLED_NOWAIT, CANCELLED_WAIT))"

text \<open>
  \<open>callback_pending\<close> spins while the word is \<open>SCHEDULING\<close> and then tries to claim a
  pending operation. The word is a field of a larger object, which the other threads
  change between two loads: \<open>get\<close> and \<open>put\<close> access the field.
\<close>

definition callback_pending ::
  "('o \<Rightarrow> usize) \<Rightarrow> (usize \<Rightarrow> 'o \<Rightarrow> 'o) \<Rightarrow> ('o \<Rightarrow> 'o) list \<Rightarrow> 'o \<Rightarrow> (bool \<times> 'o) option" where
  "callback_pending get put env o1 =
     (case spin_while (\<lambda>x. get x = SCHEDULING) env o1 of
        None \<Rightarrow> None
      | Some o2 \<Rightarrow>
          (let (won, s) = compare_exchange PENDING CALLBACK (get o2) in Some (won, put s o2)))"

definition callback_cancelled_nowait :: "usize \<Rightarrow> bool \<times> usize" where
  "callback_cancelled_nowait = compare_exchange CANCELLED_NOWAIT CALLBACK"

definition callback_cancelled_wait :: "usize \<Rightarrow> bool \<times> usize" where
  "callback_cancelled_wait = compare_exchange CANCELLED_WAIT CALLBACK"

definition set_ready :: "usize \<Rightarrow> usize" where
  "set_ready s = READY"

definition finish :: "usize \<Rightarrow> bool \<times> usize" where
  "finish = compare_exchange READY READY"

definition is_cancellable :: "usize \<Rightarrow> bool" where
  "is_cancellable s \<longleftrightarrow> s = PENDING"

definition is_busy :: "usize \<Rightarrow> bool" where
  "is_busy s \<longleftrightarrow> \<not> (s = IDLE \<or> s = READY)"

lemmas io_state_values = IDLE_def SCHEDULING_def PENDING_def CALLBACK_def READY_def
  CANCELLED_NOWAIT_def CANCELLED_WAIT_def

lemma io_state_distinct [simp]:
  "IDLE \<noteq> SCHEDULING" "IDLE \<noteq> PENDING" "IDLE \<noteq> CALLBACK"
  "IDLE \<noteq> READY" "IDLE \<noteq> CANCELLED_NOWAIT" "IDLE \<noteq> CANCELLED_WAIT"
  "SCHEDULING \<noteq> IDLE" "SCHEDULING \<noteq> PENDING" "SCHEDULING \<noteq> CALLBACK"
  "SCHEDULING \<noteq> READY" "SCHEDULING \<noteq> CANCELLED_NOWAIT" "SCHEDULING \<noteq> CANCELLED_WAIT"
  "PENDING \<noteq> IDLE" "PENDING \<noteq> SCHEDULING" "PENDING \<noteq> CALLBACK"
  "PENDING \<noteq> READY" "PENDING \<noteq> CANCELLED_NOWAIT" "PENDING \<noteq> CANCELLED_WAIT"
  "CALLBACK \<noteq> IDLE" "CALLBACK \<noteq> SCHEDULING" "CALLBACK \<noteq> PENDING"
  "CALLBACK \<noteq> READY" "CALLBACK \<noteq> CANCELLED_NOWAIT" "CALLBACK \<noteq> CANCELLED_WAIT"
  "READY \<noteq> IDLE" "READY \<noteq> SCHEDULING" "READY \<noteq> PENDING"
  "READY \<noteq> CALLBACK" "READY \<noteq> CANCELLED_NOWAIT" "READY \<noteq> CANCELLED_WAIT"
  "CANCELLED_NOWAIT \<noteq> IDLE" "CANCELLED_NOWAIT \<noteq> SCHEDULING" "CANCELLED_NOWAIT \<noteq> PENDING"
  "CANCELLED_NOWAIT \<noteq> CALLBACK" "CANCELLED_NOWAIT \<noteq> READY" "CANCELLED_NOWAIT \<noteq> CANCELLED_WAIT"
  "CANCELLED_WAIT \<noteq> IDLE" "CANCELLED_WAIT \<noteq> SCHEDULING" "CANCELLED_WAIT \<noteq> PENDING"
  "CANCELLED_WAIT \<noteq> CALLBACK" "CANCELLED_WAIT \<noteq> READY" "CANCELLED_WAIT \<noteq> CANCELLED_NOWAIT"
  by (simp_all add: io_state_values)

lemmas io_state_ops = compare_exchange_def io_state_new_def set_idle_def schedule_def
  set_pending_def cancel_def callback_cancelled_nowait_def callback_cancelled_wait_def
  set_ready_def finish_def is_cancellable_def is_busy_def

section \<open>The result cell\<close>

text \<open>
  \<open>MaybeUninit<Result<usize, NonZeroU32>>\<close>: \<open>None\<close> is the uninitialised cell. Reading it
  before it is written is undefined behaviour.
\<close>

type_synonym io_result = "(u32 + usize) option"

definition io_result_new :: io_result where
  "io_result_new = None"

definition NonZeroU32_new :: "u32 \<Rightarrow> u32 option" where
  "NonZeroU32_new n = (if n = 0 then None else Some n)"

definition io_result_set :: "u32 \<Rightarrow> usize \<Rightarrow> io_result" where
  "io_result_set result transferred =
     Some (case NonZeroU32_new result of None \<Rightarrow> Inr transferred | Some err \<Rightarrow> Inl err)"

definition io_result_get :: "io_result \<Rightarrow> usize res" where
  "io_result_get cell =
     (case cell of
        None \<Rightarrow> Fault (Undefined ''read of an uninitialised IoResult'')
      | Some (Inr n) \<Rightarrow> Ok n
      | Some (Inl err) \<Rightarrow> Err (Os (sint err)))"

section \<open>Phases\<close>

datatype phase = Idle | Scheduling | PendingIo | InCallback | Complete
  | CancelledNowait | CancelledWait

definition phase_of :: "usize \<Rightarrow> phase" where
  "phase_of s =
     (if s = SCHEDULING then Scheduling else if s = PENDING then PendingIo
      else if s = CALLBACK then InCallback else if s = READY then Complete
      else if s = CANCELLED_NOWAIT then CancelledNowait
      else if s = CANCELLED_WAIT then CancelledWait else Idle)"

definition valid_state :: "usize \<Rightarrow> bool" where
  "valid_state s \<longleftrightarrow>
     s \<in> {IDLE, SCHEDULING, PENDING, CALLBACK, READY, CANCELLED_NOWAIT, CANCELLED_WAIT}"

text \<open>The value a phase is stored as.\<close>

fun word_of :: "phase \<Rightarrow> usize" where
  "word_of Idle = IDLE"
| "word_of Scheduling = SCHEDULING"
| "word_of PendingIo = PENDING"
| "word_of InCallback = CALLBACK"
| "word_of Complete = READY"
| "word_of CancelledNowait = CANCELLED_NOWAIT"
| "word_of CancelledWait = CANCELLED_WAIT"

lemma phase_of_word_of [simp]: "phase_of (word_of f) = f"
  by (cases f) (simp_all add: phase_of_def io_state_values)

lemma valid_state_word_of [simp]: "valid_state (word_of f)"
  by (cases f) (simp_all add: valid_state_def)

lemma word_of_phase_of [simp]: "valid_state s \<Longrightarrow> word_of (phase_of s) = s"
  by (auto simp: valid_state_def phase_of_def io_state_values)

lemma phase_of_values [simp]:
  "phase_of IDLE = Idle" "phase_of SCHEDULING = Scheduling" "phase_of PENDING = PendingIo"
  "phase_of CALLBACK = InCallback" "phase_of READY = Complete"
  "phase_of CANCELLED_NOWAIT = CancelledNowait" "phase_of CANCELLED_WAIT = CancelledWait"
  by (simp_all add: phase_of_def io_state_values)

text \<open>
  The interface: an abstraction of the stored value to a phase, an invariant on the
  stored values, and what every operation does to the phase.
\<close>

locale io_cell =
  fixes phase :: "'s \<Rightarrow> phase"
    and inv :: "'s \<Rightarrow> bool"
    and start :: 's
    and to_idle :: "'s \<Rightarrow> 's"
    and begin_op :: "'s \<Rightarrow> bool \<times> 's"
    and to_pending :: "'s \<Rightarrow> 's"
    and cancel_op :: "bool \<Rightarrow> 's \<Rightarrow> bool \<times> 's"
    and claim_nowait :: "'s \<Rightarrow> bool \<times> 's"
    and claim_wait :: "'s \<Rightarrow> bool \<times> 's"
    and to_ready :: "'s \<Rightarrow> 's"
    and take :: "'s \<Rightarrow> bool \<times> 's"
    and cancellable :: "'s \<Rightarrow> bool"
    and busy :: "'s \<Rightarrow> bool"
  assumes start: "inv start" "phase start = Idle"
    and to_idle: "inv s \<Longrightarrow> inv (to_idle s)" "phase (to_idle s) = Idle"
    and begin_op: "inv s \<Longrightarrow> inv (snd (begin_op s))"
      "inv s \<Longrightarrow> fst (begin_op s) \<longleftrightarrow> phase s = Idle"
      "inv s \<Longrightarrow> phase (snd (begin_op s)) = (if phase s = Idle then Scheduling else phase s)"
    and to_pending: "inv s \<Longrightarrow> inv (to_pending s)" "phase (to_pending s) = PendingIo"
    and cancel_op: "inv s \<Longrightarrow> inv (snd (cancel_op wt s))"
      "inv s \<Longrightarrow> fst (cancel_op wt s) \<longleftrightarrow> phase s \<noteq> CancelledNowait"
      "phase (snd (cancel_op wt s)) = (if wt then CancelledWait else CancelledNowait)"
    and claim_nowait: "inv s \<Longrightarrow> inv (snd (claim_nowait s))"
      "inv s \<Longrightarrow> fst (claim_nowait s) \<longleftrightarrow> phase s = CancelledNowait"
      "inv s \<Longrightarrow> phase (snd (claim_nowait s)) =
         (if phase s = CancelledNowait then InCallback else phase s)"
    and claim_wait: "inv s \<Longrightarrow> inv (snd (claim_wait s))"
      "inv s \<Longrightarrow> fst (claim_wait s) \<longleftrightarrow> phase s = CancelledWait"
      "inv s \<Longrightarrow> phase (snd (claim_wait s)) =
         (if phase s = CancelledWait then InCallback else phase s)"
    and to_ready: "inv s \<Longrightarrow> inv (to_ready s)" "phase (to_ready s) = Complete"
    and take: "inv s \<Longrightarrow> inv (snd (take s))"
      "inv s \<Longrightarrow> fst (take s) \<longleftrightarrow> phase s = Complete"
      "inv s \<Longrightarrow> phase (snd (take s)) = phase s"
    and cancellable: "inv s \<Longrightarrow> cancellable s \<longleftrightarrow> phase s = PendingIo"
    and busy: "inv s \<Longrightarrow> busy s \<longleftrightarrow> phase s \<noteq> Idle \<and> phase s \<noteq> Complete"
begin

text \<open>A poller either takes a result or starts an operation, never both.\<close>

lemma take_excludes_begin: "inv s \<Longrightarrow> fst (take s) \<Longrightarrow> \<not> fst (begin_op (snd (take s)))"
  by (simp add: take begin_op)

text \<open>Of two attempts to start an operation in a row only the first succeeds.\<close>

lemma begin_once: "inv s \<Longrightarrow> \<not> fst (begin_op (snd (begin_op s)))"
  by (simp add: begin_op)

text \<open>At most one of the two cancelled claims succeeds, and a success makes both fail.\<close>

lemma claim_once:
  "inv s \<Longrightarrow> \<not> (fst (claim_nowait s) \<and> fst (claim_wait (snd (claim_nowait s))))"
  by (simp add: claim_nowait claim_wait)

text \<open>
  A cell that cancels is busy, and stays so until something else than the canceller
  moves it: only \<open>to_idle\<close> and \<open>to_ready\<close> end the business.
\<close>

lemma cancelled_busy: "inv s \<Longrightarrow> busy (snd (cancel_op wt s))"
  by (simp add: busy cancel_op)

lemma cancelled_not_cancellable: "inv s \<Longrightarrow> \<not> cancellable (snd (cancel_op wt s))"
  by (simp add: cancellable cancel_op)

lemma busy_unpolled:
  "inv s \<Longrightarrow> phase s \<noteq> Idle \<Longrightarrow> phase s \<noteq> Complete \<Longrightarrow>
     \<not> fst (take s) \<and> \<not> fst (begin_op (snd (take s))) \<and> phase (snd (begin_op (snd (take s)))) = phase s"
  by (simp add: take begin_op)

end

interpretation iost: io_cell phase_of valid_state io_state_new set_idle schedule set_pending
  cancel callback_cancelled_nowait callback_cancelled_wait set_ready finish is_cancellable is_busy
  by unfold_locales
    (auto simp: io_state_ops phase_of_def valid_state_def io_state_values split: if_splits)

end
