(* ===== verification/Io_Core.thy ===== *)
theory Io_Core
  imports Io_State Context
begin

text \<open>
  The shared memory of overlapped operations. \<open>IoEvent\<close> (\<open>src/io/shared/event.rs\<close>) and
  \<open>IoHalf\<close> (\<open>src/io/shared/handle.rs\<close>) both hold an \<open>IoState\<close>, an \<open>IoResult\<close>, an
  \<open>AtomicWaker\<close> and an \<open>OVERLAPPED\<close>; the first three are a record \<open>io_core\<close>, and the
  fourth names it: the memory maps each \<open>OVERLAPPED\<close> to its core. The locale \<open>completion\<close>
  is the contract of such an object.
\<close>

section \<open>Memory\<close>

record io_core =
  st :: usize
  cell :: io_result
  aw :: atomic_waker

record io_world = "handle world" +
  cores :: "overlapped \<Rightarrow> io_core"

text \<open>A fresh core, as \<open>IoHalf::new\<close> and \<open>IoEvent::new\<close> make it.\<close>

definition io_core_new :: io_core where
  "io_core_new = \<lparr>st = io_state_new, cell = io_result_new, aw = []\<rparr>"

definition upd_core :: "overlapped \<Rightarrow> (io_core \<Rightarrow> io_core) \<Rightarrow> io_world \<Rightarrow> io_world" where
  "upd_core ov f w = w\<lparr>cores := (cores w)(ov := f (cores w ov))\<rparr>"

lemma upd_core_sel [simp]:
  "cores (upd_core ov f w) = (cores w)(ov := f (cores w ov))"
  "wlog (upd_core ov f w) = wlog w"
  "wctx (upd_core ov f w) = wctx w"
  by (simp_all add: upd_core_def)

lemma upd_core_twice [simp]: "upd_core ov f (upd_core ov g w) = upd_core ov (\<lambda>c. f (g c)) w"
  by (simp add: upd_core_def)

lemma upd_core_wlog [simp]: "(upd_core ov f w)\<lparr>wlog := l\<rparr> = upd_core ov f (w\<lparr>wlog := l\<rparr>)"
  by (simp add: upd_core_def)

lemma upd_core_same:
  "f (cores w ov) = cores w ov \<Longrightarrow> upd_core ov f w = w"
  by (simp add: upd_core_def)

lemma cores_wlog [simp]: "cores (w\<lparr>wlog := l\<rparr>) = cores w"
  by simp

section \<open>Atomic steps\<close>

definition st_op :: "overlapped \<Rightarrow> (usize \<Rightarrow> 'a \<times> usize) \<Rightarrow> (io_world, 'a) state" where
  "st_op ov f = State (\<lambda>w. (fst (f (st (cores w ov))), upd_core ov (\<lambda>c. c\<lparr>st := snd (f (st c))\<rparr>) w))"

definition st_set :: "overlapped \<Rightarrow> (usize \<Rightarrow> usize) \<Rightarrow> (io_world, unit) state" where
  "st_set ov f = State (\<lambda>w. ((), upd_core ov (\<lambda>c. c\<lparr>st := f (st c)\<rparr>) w))"

definition st_load :: "overlapped \<Rightarrow> (usize \<Rightarrow> 'a) \<Rightarrow> (io_world, 'a) state" where
  "st_load ov f = State (\<lambda>w. (f (st (cores w ov)), w))"

definition cell_get :: "overlapped \<Rightarrow> (io_world, usize res) state" where
  "cell_get ov = State (\<lambda>w. (io_result_get (cell (cores w ov)), w))"

definition cell_set :: "overlapped \<Rightarrow> u32 \<Rightarrow> usize \<Rightarrow> (io_world, unit) state" where
  "cell_set ov result transferred =
     State (\<lambda>w. ((), upd_core ov (\<lambda>c. c\<lparr>cell := io_result_set result transferred\<rparr>) w))"

definition register :: "overlapped \<Rightarrow> waker \<Rightarrow> (io_world, unit) state" where
  "register ov cx = State (\<lambda>w. ((), upd_core ov (\<lambda>c. c\<lparr>aw := aw c @ [Register cx]\<rparr>) w))"

text \<open>\<open>AtomicWaker::wake\<close>: the waker it takes, if any, is woken.\<close>

definition wake_task :: "platform \<Rightarrow> overlapped \<Rightarrow> (io_world, unit) state" where
  "wake_task p ov = State (\<lambda>w. ((),
     let w' = upd_core ov (\<lambda>c. c\<lparr>aw := aw c @ [Wake]\<rparr>) w in
     case aw_wake p (aw (cores w ov)) of
       None \<Rightarrow> w'
     | Some k \<Rightarrow> w'\<lparr>wlog := wlog w' @ [WakeTask k]\<rparr>))"

text \<open>\<open>while b(state) { thread::yield_now() }\<close> inside an operation.\<close>

definition spin :: "(io_world \<Rightarrow> bool) \<Rightarrow> (io_world \<Rightarrow> io_world) list \<Rightarrow> (io_world, unit option) state"
  where
  "spin b env = State (\<lambda>w. case spin_while b env w of None \<Rightarrow> (None, w) | Some w' \<Rightarrow> (Some (), w'))"

definition callback_pending_op ::
  "overlapped \<Rightarrow> (io_world \<Rightarrow> io_world) list \<Rightarrow> (io_world, bool option) state" where
  "callback_pending_op ov env = State (\<lambda>w.
     case callback_pending (\<lambda>w. st (cores w ov)) (\<lambda>s. upd_core ov (\<lambda>c. c\<lparr>st := s\<rparr>)) env w of
       None \<Rightarrow> (None, w)
     | Some (won, w') \<Rightarrow> (Some won, w'))"

lemma run_st_op [run_simps]:
  "run_state (st_op ov f) w =
     (fst (f (st (cores w ov))), upd_core ov (\<lambda>c. c\<lparr>st := snd (f (st c))\<rparr>) w)"
  by (simp add: st_op_def)

lemma run_st_set [run_simps]:
  "run_state (st_set ov f) w = ((), upd_core ov (\<lambda>c. c\<lparr>st := f (st c)\<rparr>) w)"
  by (simp add: st_set_def)

lemma run_st_load [run_simps]: "run_state (st_load ov f) w = (f (st (cores w ov)), w)"
  by (simp add: st_load_def)

lemma run_cell_get [run_simps]:
  "run_state (cell_get ov) w = (io_result_get (cell (cores w ov)), w)"
  by (simp add: cell_get_def)

lemma run_cell_set [run_simps]:
  "run_state (cell_set ov r n) w = ((), upd_core ov (\<lambda>c. c\<lparr>cell := io_result_set r n\<rparr>) w)"
  by (simp add: cell_set_def)

lemma run_register [run_simps]:
  "run_state (register ov k) w = ((), upd_core ov (\<lambda>c. c\<lparr>aw := aw c @ [Register k]\<rparr>) w)"
  by (simp add: register_def)

lemma run_spin [run_simps]:
  "run_state (spin b env) w =
     (case spin_while b env w of None \<Rightarrow> (None, w) | Some w' \<Rightarrow> (Some (), w'))"
  by (simp add: spin_def)

lemma run_callback_pending_op [run_simps]:
  "st (cores w ov) \<noteq> SCHEDULING \<Longrightarrow>
   run_state (callback_pending_op ov env) w =
     (Some (fst (compare_exchange PENDING CALLBACK (st (cores w ov)))),
      upd_core ov (\<lambda>c. c\<lparr>st := snd (compare_exchange PENDING CALLBACK (st c))\<rparr>) w)"
  by (simp add: callback_pending_op_def callback_pending_def Let_def upd_core_def split: prod.split)

lemma run_wake_task:
  "run_state (wake_task p ov) w =
     ((), case aw_wake p (aw (cores w ov)) of
        None \<Rightarrow> upd_core ov (\<lambda>c. c\<lparr>aw := aw c @ [Wake]\<rparr>) w
      | Some k \<Rightarrow> upd_core ov (\<lambda>c. c\<lparr>aw := aw c @ [Wake]\<rparr>) (w\<lparr>wlog := wlog w @ [WakeTask k]\<rparr>))"
  by (simp add: wake_task_def Let_def split: option.split)

abbreviation phase_at :: "overlapped \<Rightarrow> io_world \<Rightarrow> phase" where
  "phase_at ov w \<equiv> phase_of (st (cores w ov))"

abbreviation cell_at :: "overlapped \<Rightarrow> io_world \<Rightarrow> io_result" where
  "cell_at ov w \<equiv> cell (cores w ov)"

abbreviation valid_at :: "overlapped \<Rightarrow> io_world \<Rightarrow> bool" where
  "valid_at ov w \<equiv> valid_state (st (cores w ov))"

lemma valid_phase_iff:
  assumes "valid_state s"
  shows "phase_of s = Idle \<longleftrightarrow> s = IDLE" and "phase_of s = Scheduling \<longleftrightarrow> s = SCHEDULING"
    and "phase_of s = PendingIo \<longleftrightarrow> s = PENDING" and "phase_of s = InCallback \<longleftrightarrow> s = CALLBACK"
    and "phase_of s = Complete \<longleftrightarrow> s = READY"
    and "phase_of s = CancelledNowait \<longleftrightarrow> s = CANCELLED_NOWAIT"
    and "phase_of s = CancelledWait \<longleftrightarrow> s = CANCELLED_WAIT"
  using assms by (auto simp: valid_state_def phase_of_def io_state_values)

section \<open>The contract of a completion object\<close>

text \<open>
  An object on which one overlapped operation at a time runs: \<open>poll\<close> starts it when idle,
  the completion hands over its outcome, the next poll takes it. \<open>pends sch s\<close> says that the
  schedule function leaves the operation pending from \<open>s\<close>; \<open>answer\<close> is what a poll returns
  for a completed operation. \<open>polls\<close> polls several times in a row.
\<close>

fun polls :: "('k \<Rightarrow> 'sch \<Rightarrow> 's \<Rightarrow> 'r \<times> 's) \<Rightarrow> ('k \<times> 'sch) list \<Rightarrow> 's \<Rightarrow> 'r list \<times> 's" where
  "polls poll [] s = ([], s)"
| "polls poll ((k, sch) # ks) s =
     (let (x, s1) = poll k sch s; (xs, s2) = polls poll ks s1 in (x # xs, s2))"

lemma polls_Cons [simp]:
  "fst (polls poll (x # ks) s) =
     fst (poll (fst x) (snd x) s) # fst (polls poll ks (snd (poll (fst x) (snd x) s)))"
  "snd (polls poll (x # ks) s) = snd (polls poll ks (snd (poll (fst x) (snd x) s)))"
  by (cases x; simp split: prod.split)+

locale completion =
  fixes phase :: "'s \<Rightarrow> phase"
    and inv :: "'s \<Rightarrow> bool"
    and stored :: "'s \<Rightarrow> io_result"
    and poll :: "waker \<Rightarrow> 'sch \<Rightarrow> 's \<Rightarrow> 'r poll \<times> 's"
    and pends :: "'sch \<Rightarrow> 's \<Rightarrow> bool"
    and complete :: "u32 \<Rightarrow> usize \<Rightarrow> 's \<Rightarrow> 's"
    and outcome :: "u32 \<Rightarrow> usize \<Rightarrow> io_result"
    and answer :: "io_result \<Rightarrow> 's \<Rightarrow> 'r"
  assumes poll_start: "inv s \<Longrightarrow> phase s = Idle \<Longrightarrow> pends sch s \<Longrightarrow>
      fst (poll k sch s) = Pending \<and> phase (snd (poll k sch s)) = PendingIo \<and> inv (snd (poll k sch s))"
    and poll_again: "inv s \<Longrightarrow> phase s = PendingIo \<Longrightarrow>
      fst (poll k sch s) = Pending \<and> phase (snd (poll k sch s)) = PendingIo \<and> inv (snd (poll k sch s))"
    and completes: "inv s \<Longrightarrow> phase s = PendingIo \<Longrightarrow>
      phase (complete r n s) = Complete \<and> stored (complete r n s) = outcome r n \<and> inv (complete r n s)"
    and poll_take: "inv s \<Longrightarrow> phase s = Complete \<Longrightarrow> stored s = outcome r n \<Longrightarrow>
      fst (poll k sch s) = Ready (answer (stored s) s) \<and> phase (snd (poll k sch s)) = Idle \<and>
      inv (snd (poll k sch s))"
begin

lemma polls_pending:
  "inv s \<Longrightarrow> phase s = PendingIo \<Longrightarrow>
     set (fst (polls poll ks s)) \<subseteq> {Pending} \<and> phase (snd (polls poll ks s)) = PendingIo \<and> inv (snd (polls poll ks s))"
proof (induction ks arbitrary: s)
  case (Cons x ks)
  with poll_again [OF Cons.prems, of "fst x" "snd x"] show ?case by simp
qed simp

text \<open>
  The life of an operation: the first poll starts it, further polls while it runs are
  pending too, the completion stores its outcome, and the next poll answers with it and
  leaves the object idle for the next operation.
\<close>

lemma operation:
  fixes k k' :: waker and sch sch' :: 'sch and ks :: "(waker \<times> 'sch) list" and r :: u32 and n :: usize
  assumes "inv s" and "phase s = Idle" and "pends sch s"
  defines "s1 \<equiv> snd (poll k sch s)"
  defines "s2 \<equiv> complete r n (snd (polls poll ks s1))"
  shows "fst (poll k sch s) = Pending \<and> set (fst (polls poll ks s1)) \<subseteq> {Pending} \<and>
    fst (poll k' sch' s2) = Ready (answer (outcome r n) s2) \<and> phase (snd (poll k' sch' s2)) = Idle \<and>
    inv (snd (poll k' sch' s2))"
proof -
  have 1: "fst (poll k sch s) = Pending" "phase s1 = PendingIo" "inv s1"
    using poll_start [OF assms(1-3)] by (simp_all add: s1_def)
  then have "set (fst (polls poll ks s1)) \<subseteq> {Pending}" "phase (snd (polls poll ks s1)) = PendingIo"
    "inv (snd (polls poll ks s1))"
    using polls_pending by auto
  moreover from this have "phase s2 = Complete" "stored s2 = outcome r n" "inv s2"
    using completes by (simp_all add: s2_def)
  ultimately show ?thesis using 1 poll_take [of s2 r n k' sch'] by simp
qed

end

end
