(* ===== verification/Io_Event.thy ===== *)
theory Io_Event
  imports Io_Core
begin

text \<open>
  \<open>src/io/shared/event.rs\<close>: an overlapped operation that signals a Win32 event, watched by a
  thread-pool wait. The immutable fields are a record, the mutable ones the core its field
  \<open>ev_ov\<close> names.
\<close>

section \<open>Operations\<close>

record io_event =
  ev_wait :: ptr
  ev_hEvent :: ptr
  ev_ov :: overlapped

definition io_event_drop ::
  "platform \<Rightarrow> (io_world \<Rightarrow> io_world) list \<Rightarrow> io_event \<Rightarrow> (io_world, unit option) state" where
  "io_event_drop p env self = do {
     _ \<leftarrow> notify_may_block p;
     idle \<leftarrow> spin (\<lambda>w. is_busy (st (cores w (ev_ov self)))) env;
     case idle of
       None \<Rightarrow> State_Monad.return None
     | Some _ \<Rightarrow> do {
         _ \<leftarrow> (if ev_wait self \<noteq> 0 then sys p (CloseThreadpoolWait (ev_wait self))
              else State_Monad.return 0);
         _ \<leftarrow> sys p (CloseHandle (ev_hEvent self));
         State_Monad.return (Some ())
       } }"

text \<open>The box of the new event is dropped again when the wait cannot be created.\<close>

definition io_event_new :: "platform \<Rightarrow> overlapped \<Rightarrow> tp_environ \<Rightarrow> (io_world, io_event res) state" where
  "io_event_new p ov callback_environ = do {
     event \<leftarrow> sys p CreateEventW;
     if event = 0 then fail_last p
     else do {
       _ \<leftarrow> State (\<lambda>w. ((), upd_core ov (\<lambda>_. io_core_new) w));
       wait \<leftarrow> sys p (CreateThreadpoolWait callback_environ);
       if wait = 0 then do {
         e \<leftarrow> fail_last p;
         _ \<leftarrow> io_event_drop p [] \<lparr>ev_wait = 0, ev_hEvent = event, ev_ov = ov\<rparr>;
         State_Monad.return e
       } else do {
         _ \<leftarrow> sys p (SetThreadpoolWait wait event);
         State_Monad.return (Ok \<lparr>ev_wait = wait, ev_hEvent = event, ev_ov = ov\<rparr>)
       } } }"

definition io_event_callback ::
  "platform \<Rightarrow> (io_world \<Rightarrow> io_world) list \<Rightarrow> io_event \<Rightarrow> u32 \<Rightarrow> (io_world, unit option) state" where
  "io_event_callback p env self result = do {
     won \<leftarrow> callback_pending_op (ev_ov self) env;
     case won of
       None \<Rightarrow> State_Monad.return None
     | Some won \<Rightarrow>
         if won then do {
           _ \<leftarrow> cell_set (ev_ov self) result 0;
           _ \<leftarrow> st_set (ev_ov self) set_ready;
           _ \<leftarrow> wake_task p (ev_ov self);
           State_Monad.return (Some ())
         } else State_Monad.return (Some ()) }"

type_synonym event_schedule = "(io_world, unit res poll) state"

definition io_event_poll ::
  "platform \<Rightarrow> io_event \<Rightarrow> ptr option \<Rightarrow> waker \<Rightarrow> event_schedule \<Rightarrow> event_schedule" where
  "io_event_poll p self handle cx schedule_fn = do {
     finished \<leftarrow> st_op (ev_ov self) finish;
     if finished then do {
       ret \<leftarrow> sys p (ResetEvent (ev_hEvent self));
       if ret = 0 then do {
         _ \<leftarrow> st_set (ev_ov self) set_idle;
         e \<leftarrow> fail_last p;
         State_Monad.return (Ready e)
       } else do {
         _ \<leftarrow> sys p (SetThreadpoolWait (ev_wait self) (ev_hEvent self));
         result \<leftarrow> cell_get (ev_ov self);
         case result of
           Fault f \<Rightarrow> State_Monad.return (Ready (Fault f))
         | Err err \<Rightarrow> do {
             _ \<leftarrow> st_set (ev_ov self) set_idle;
             State_Monad.return (Ready (Err err)) }
         | Ok _ \<Rightarrow>
             (case handle of
                Some handle \<Rightarrow> do {
                  ret \<leftarrow> sys p (GetOverlappedResult handle (ev_ov self));
                  _ \<leftarrow> st_set (ev_ov self) set_idle;
                  if ret \<noteq> 0 then State_Monad.return (Ready (Ok ()))
                  else do { e \<leftarrow> fail_last p; State_Monad.return (Ready e) } }
              | None \<Rightarrow> do {
                  _ \<leftarrow> st_set (ev_ov self) set_idle;
                  State_Monad.return (Ready (Ok ())) })
       }
     } else do {
       scheduling \<leftarrow> st_op (ev_ov self) schedule;
       if scheduling then do {
         poll \<leftarrow> schedule_fn;
         case poll of
           Ready result \<Rightarrow> do {
             _ \<leftarrow> st_set (ev_ov self) set_idle;
             State_Monad.return (Ready result) }
         | Pending \<Rightarrow> do {
             _ \<leftarrow> register (ev_ov self) cx;
             _ \<leftarrow> st_set (ev_ov self) set_pending;
             State_Monad.return Pending }
       } else do {
         _ \<leftarrow> register (ev_ov self) cx;
         State_Monad.return Pending
       } } }"

section \<open>Running the operations\<close>

text \<open>The world in which \<open>poll\<close> calls the schedule function.\<close>

definition scheduling_world :: "overlapped \<Rightarrow> io_world \<Rightarrow> io_world" where
  "scheduling_world ov w = upd_core ov (\<lambda>c. c\<lparr>st := SCHEDULING\<rparr>) w"

lemma io_event_poll_start:
  assumes "phase_at (ev_ov self) w = Idle" and "valid_at (ev_ov self) w"
  shows "run_state (io_event_poll p self hdl k sch) w =
    (case run_state sch (scheduling_world (ev_ov self) w) of
       (Ready r, w') \<Rightarrow> (Ready r, upd_core (ev_ov self) (\<lambda>c. c\<lparr>st := IDLE\<rparr>) w')
     | (Pending, w') \<Rightarrow>
         (Pending, upd_core (ev_ov self) (\<lambda>c. c\<lparr>aw := aw c @ [Register k], st := PENDING\<rparr>) w'))"
proof -
  have "st (cores w (ev_ov self)) = IDLE" using assms valid_phase_iff(1) by blast
  then show ?thesis
    by (simp add: io_event_poll_def run_simps io_state_ops io_state_values scheduling_world_def
        split: prod.split poll.split) (simp add: upd_core_def)
qed

lemma io_event_poll_busy:
  assumes "phase_at (ev_ov self) w \<noteq> Idle" and "phase_at (ev_ov self) w \<noteq> Complete" and "valid_at (ev_ov self) w"
  shows "run_state (io_event_poll p self hdl k sch) w =
    (Pending, upd_core (ev_ov self) (\<lambda>c. c\<lparr>aw := aw c @ [Register k]\<rparr>) w)"
proof -
  have "st (cores w (ev_ov self)) \<noteq> IDLE" "st (cores w (ev_ov self)) \<noteq> READY"
    using assms valid_phase_iff(1,5) by blast+
  then show ?thesis
    by (simp add: io_event_poll_def run_simps io_state_ops)
qed

text \<open>What a poll answers once the operation has completed with the given cell.\<close>

definition event_answer ::
  "platform \<Rightarrow> io_event \<Rightarrow> ptr option \<Rightarrow> io_result \<Rightarrow> io_world \<Rightarrow> unit res" where
  "event_answer p self hdl c w =
     (let l = wlog w; reset = ResetEvent (ev_hEvent self);
          l2 = l @ [reset, SetThreadpoolWait (ev_wait self) (ev_hEvent self)]
      in if win p l reset = 0 then Err (Os (win p (l @ [reset]) GetLastError))
         else (case io_result_get c of
            Err e \<Rightarrow> Err e
          | Fault f \<Rightarrow> Fault f
          | Ok _ \<Rightarrow>
              (case hdl of
                 None \<Rightarrow> Ok ()
               | Some h \<Rightarrow>
                   if win p l2 (GetOverlappedResult h (ev_ov self)) \<noteq> 0 then Ok ()
                   else Err (Os (win p (l2 @ [GetOverlappedResult h (ev_ov self)]) GetLastError)))))"

lemma io_result_get_set: "io_result_get (io_result_set r n) = (if r = 0 then Ok n else Err (Os (sint r)))"
  by (simp add: io_result_get_def io_result_set_def NonZeroU32_new_def)

lemma io_event_poll_take:
  assumes "phase_at (ev_ov self) w = Complete" and "valid_at (ev_ov self) w"
    and "cell_at (ev_ov self) w = io_result_set r n"
  shows "fst (run_state (io_event_poll p self hdl k sch) w) = Ready (event_answer p self hdl (cell_at (ev_ov self) w) w)"
    and "phase_at (ev_ov self) (snd (run_state (io_event_poll p self hdl k sch) w)) = Idle"
    and "valid_at (ev_ov self) (snd (run_state (io_event_poll p self hdl k sch) w))"
proof -
  have st: "st (cores w (ev_ov self)) = READY" using assms valid_phase_iff(5) by blast
  note defs = io_event_poll_def run_simps io_state_ops event_answer_def Let_def assms(3)
    io_result_get_set
  show "fst (run_state (io_event_poll p self hdl k sch) w) = Ready (event_answer p self hdl (cell_at (ev_ov self) w) w)"
    using st by (auto simp: defs split: option.split)
  show "phase_at (ev_ov self) (snd (run_state (io_event_poll p self hdl k sch) w)) = Idle"
    using st by (auto simp: defs split: option.split)
  show "valid_at (ev_ov self) (snd (run_state (io_event_poll p self hdl k sch) w))"
    using st by (auto simp: defs valid_state_def split: option.split)
qed

lemma io_event_callback_pending:
  assumes "phase_at (ev_ov self) w = PendingIo" and "valid_at (ev_ov self) w"
  shows "run_state (io_event_callback p env self r) w =
    (Some (), snd (run_state (wake_task p (ev_ov self))
       (upd_core (ev_ov self) (\<lambda>c. c\<lparr>cell := io_result_set r 0, st := READY\<rparr>) w)))"
proof -
  have "st (cores w (ev_ov self)) = PENDING" using assms valid_phase_iff(3) by blast
  then show ?thesis
    by (simp add: io_event_callback_def run_simps io_state_ops io_state_values run_wake_task
        split: option.split)
qed

text \<open>A callback that finds no operation changes nothing.\<close>

lemma io_event_callback_stale:
  assumes "phase_at (ev_ov self) w \<noteq> PendingIo" and "phase_at (ev_ov self) w \<noteq> Scheduling" and "valid_at (ev_ov self) w"
  shows "run_state (io_event_callback p env self r) w = (Some (), w)"
proof -
  have "st (cores w (ev_ov self)) \<noteq> PENDING" "st (cores w (ev_ov self)) \<noteq> SCHEDULING"
    using assms valid_phase_iff(2,3) by blast+
  then show ?thesis
    by (simp add: io_event_callback_def run_simps io_state_ops upd_core_def)
qed

lemma wake_task_core [simp]:
  "st (cores (snd (run_state (wake_task p ov) w)) ov) = st (cores w ov)"
  "cell (cores (snd (run_state (wake_task p ov) w)) ov) = cell (cores w ov)"
  by (simp_all add: run_wake_task split: option.split)

section \<open>The event keeps the contract of a completion object\<close>

definition event_pends :: "io_event \<Rightarrow> event_schedule \<Rightarrow> io_world \<Rightarrow> bool" where
  "event_pends self sch w \<longleftrightarrow> fst (run_state sch (scheduling_world (ev_ov self) w)) = Pending"

interpretation event: completion "phase_at (ev_ov self)" "valid_at (ev_ov self)" "cell_at (ev_ov self)"
  "\<lambda>k sch. run_state (io_event_poll p self hdl k sch)" "event_pends self"
  "\<lambda>r n w. snd (run_state (io_event_callback p env self r) w)" "\<lambda>r n. io_result_set r 0"
  "event_answer p self hdl"
  for p self hdl env
proof (unfold_locales, goal_cases)
  case (1 s sch k)
  then show ?case
    by (auto simp: io_event_poll_start event_pends_def valid_state_def split: prod.split poll.split)
next
  case (2 s k sch)
  then show ?case by (simp add: io_event_poll_busy)
next
  case (3 s r n)
  then show ?case
    by (simp add: io_event_callback_pending) (simp add: valid_state_def)
next
  case (4 s r n k sch)
  then show ?case using io_event_poll_take [OF 4(2,1,3)] by simp
qed

section \<open>Who is woken\<close>

text \<open>The wakers registered by polls while the operation is pending.\<close>

lemma event_polls_pending:
  assumes "phase_at (ev_ov self) w = PendingIo" and "valid_at (ev_ov self) w"
  shows "snd (polls (\<lambda>k sch. run_state (io_event_poll p self hdl k sch)) ks w) =
    upd_core (ev_ov self) (\<lambda>c. c\<lparr>aw := aw c @ map (Register \<circ> fst) ks\<rparr>) w"
  using assms
proof (induction ks arbitrary: w)
  case Nil
  then show ?case by (simp add: upd_core_def)
next
  case (Cons x ks)
  then show ?case by (simp add: io_event_poll_busy)
qed

lemma aw_wake_registered:
  assumes "waker_law p" and "ks \<noteq> []"
  shows "aw_wake p (h @ map Register ks) = Some (last ks)"
proof -
  obtain ks' k where "ks = ks' @ [k]" using assms(2) by (meson rev_exhaust)
  then show ?thesis using waker_lawD(2) [OF assms(1), of "h @ map Register ks'" k] by simp
qed

section \<open>Properties\<close>

text \<open>
  Property C13: the life of an event operation. From an idle event, a poll whose schedule
  function leaves the operation pending answers \<open>Pending\<close>; so does every further poll (and
  none of them schedules again); after the wait callback ran with result \<open>r\<close>, the next poll
  is \<open>Ready\<close> with the error \<open>r\<close> or, when \<open>r\<close> is zero, with what \<open>GetOverlappedResult\<close> says
  (\<open>event_answer\<close>); and the event is idle again.
\<close>

theorem event_operation:
  fixes k k' :: waker and sch sch' :: event_schedule and r :: u32
    and p :: platform and self :: io_event and hdl :: "ptr option"
    and ks :: "(waker \<times> event_schedule) list" and env :: "(io_world \<Rightarrow> io_world) list"
  assumes "valid_at (ev_ov self) w" and "phase_at (ev_ov self) w = Idle" and "event_pends self sch w"
  defines "pol \<equiv> \<lambda>k sch. run_state (io_event_poll p self hdl k sch)"
  defines "w1 \<equiv> snd (pol k sch w)"
  defines "w2 \<equiv> snd (run_state (io_event_callback p env self r) (snd (polls pol ks w1)))"
  shows "fst (pol k sch w) = Pending \<and> set (fst (polls pol ks w1)) \<subseteq> {Pending} \<and>
    fst (pol k' sch' w2) = Ready (event_answer p self hdl (io_result_set r 0) w2) \<and>
    phase_at (ev_ov self) (snd (pol k' sch' w2)) = Idle"
  using event.operation [OF assms(1-3), where ks = ks and r = r and env = env]
  unfolding pol_def w1_def w2_def by blast

text \<open>
  Property: the waker of the last poll is the one that is woken, once. After a poll that
  starts the operation and any number of further polls, the callback adds exactly one call to
  the log: the wake of the task that polled last.
\<close>

theorem event_wakes_last_poller:
  fixes k :: waker and sch :: event_schedule
    and p :: platform and self :: io_event and hdl :: "ptr option"
    and ks :: "(waker \<times> event_schedule) list"
  assumes "waker_law p" and "valid_at (ev_ov self) w" and "phase_at (ev_ov self) w = Idle"
    and "event_pends self sch w"
  defines "pol \<equiv> \<lambda>k sch. run_state (io_event_poll p self hdl k sch)"
  defines "w1 \<equiv> snd (polls pol ks (snd (pol k sch w)))"
  shows "calls_of (io_event_callback p env self r) w1 = [WakeTask (last (k # map fst ks))]"
proof -
  obtain w0 where sch: "run_state sch (scheduling_world (ev_ov self) w) = (Pending, w0)"
    using assms(4) by (auto simp: event_pends_def) (metis prod.collapse)
  let ?w0 = "upd_core (ev_ov self) (\<lambda>c. c\<lparr>aw := aw c @ [Register k], st := PENDING\<rparr>) w0"
  have "snd (pol k sch w) = ?w0"
    by (simp add: pol_def io_event_poll_start [OF assms(3,2)] sch)
  moreover have "phase_at (ev_ov self) ?w0 = PendingIo" "valid_at (ev_ov self) ?w0"
    by (simp_all add: valid_state_def)
  ultimately have w1: "w1 = upd_core (ev_ov self) (\<lambda>c. c\<lparr>aw := aw c @ map (Register \<circ> fst) ks\<rparr>) ?w0"
    unfolding w1_def pol_def by (simp only: event_polls_pending)
  have st: "phase_at (ev_ov self) w1 = PendingIo" "valid_at (ev_ov self) w1"
    unfolding w1 by (simp_all add: valid_state_def)
  have "aw (cores w1 (ev_ov self)) = aw (cores w0 (ev_ov self)) @ map Register (k # map fst ks)"
    unfolding w1 by simp
  then have "aw_wake p (aw (cores w1 (ev_ov self))) = Some (last (k # map fst ks))"
    using aw_wake_registered [OF assms(1), of "k # map fst ks"] by simp
  then show ?thesis
    by (simp add: calls_of_def io_event_callback_pending [OF st] run_wake_task)
qed

text \<open>A world with an idle event, for the witnesses.\<close>

definition idle_world :: io_world where
  "idle_world = \<lparr>wlog = [], wctx = None, cores = (\<lambda>_. io_core_new)\<rparr>"

lemma idle_world_sel [simp]:
  "cores idle_world ov = io_core_new" "wlog idle_world = []" "wctx idle_world = None"
  by (simp_all add: idle_world_def)

lemma io_core_new_sel [simp]: "st io_core_new = IDLE" "cell io_core_new = None" "aw io_core_new = []"
  by (simp_all add: io_core_new_def io_state_new_def io_result_new_def)

lemma valid_IDLE [simp]: "valid_state IDLE"
  by (simp add: valid_state_def)

lemma event_pends_return [simp]: "event_pends self (State_Monad.return Pending) w"
  by (simp add: event_pends_def)

theorem event_operation_witness:
  "let pol = (\<lambda>k sch. run_state (io_event_poll (sample_platform (\<lambda>c. 5)) \<lparr>ev_wait = 3, ev_hEvent = 4, ev_ov = OvEvent\<rparr> None k sch));
       w1 = snd (pol 7 (State_Monad.return Pending) idle_world);
       w2 = snd (run_state (io_event_callback (sample_platform (\<lambda>c. 5)) [] \<lparr>ev_wait = 3, ev_hEvent = 4, ev_ov = OvEvent\<rparr> 11)
                  (snd (polls pol [(8, State_Monad.return Pending)] w1)))
   in fst (pol 7 (State_Monad.return Pending) w2) = Ready (Err (Os 11))"
  using event_operation [where w = idle_world and sch = "State_Monad.return Pending"
      and p = "sample_platform (\<lambda>c. 5)" and self = "\<lparr>ev_wait = 3, ev_hEvent = 4, ev_ov = OvEvent\<rparr>" and hdl = None
      and k = 7 and ks = "[(8, State_Monad.return Pending)]" and k' = 7
      and sch' = "State_Monad.return Pending" and r = 11 and env = "[]"]
  by (simp add: Let_def event_answer_def io_result_get_set)

theorem event_wakes_last_poller_witness:
  "calls_of (io_event_callback (sample_platform (\<lambda>c. 5)) [] \<lparr>ev_wait = 3, ev_hEvent = 4, ev_ov = OvEvent\<rparr> 0)
     (snd (polls (\<lambda>k sch. run_state (io_event_poll (sample_platform (\<lambda>c. 5)) \<lparr>ev_wait = 3, ev_hEvent = 4, ev_ov = OvEvent\<rparr> None k sch))
        [(8, State_Monad.return Pending)]
        (snd (run_state (io_event_poll (sample_platform (\<lambda>c. 5)) \<lparr>ev_wait = 3, ev_hEvent = 4, ev_ov = OvEvent\<rparr> None 7
           (State_Monad.return Pending)) idle_world)))) = [WakeTask 8]"
  using event_wakes_last_poller [where p = "sample_platform (\<lambda>c. 5)" and w = idle_world
      and sch = "State_Monad.return Pending" and self = "\<lparr>ev_wait = 3, ev_hEvent = 4, ev_ov = OvEvent\<rparr>" and hdl = None
      and ks = "[(8, State_Monad.return Pending)]" and k = 7 and env = "[]" and r = 0]
  by simp

text \<open>
  Property: creating an event leaks nothing. When \<open>IoEvent::new\<close> fails, every event it
  created has been closed, exactly once, and no wait is left behind; when it succeeds, the wait
  is armed on the event and nothing was closed.
\<close>

theorem event_new_no_leak:
  assumes "run_state (io_event_new p ov ce) w = (r, w')"
  shows "case r of
      Ok self \<Rightarrow> ev_wait self \<noteq> 0 \<and> ev_hEvent self \<noteq> 0 \<and>
        wlog w' = wlog w @ [CreateEventW, CreateThreadpoolWait ce,
          SetThreadpoolWait (ev_wait self) (ev_hEvent self)] \<and> phase_at ov w' = Idle \<and> ev_ov self = ov
    | Err e \<Rightarrow> (let ev = win p (wlog w) CreateEventW in
        wlog w' = wlog w @ (if ev = 0 then [CreateEventW, GetLastError]
          else [CreateEventW, CreateThreadpoolWait ce, GetLastError] @ notify_calls w @ [CloseHandle ev]))
    | Fault f \<Rightarrow> False"
proof -
  have "notify_calls (upd_core ov f v) = notify_calls v"
    "notify_calls (v\<lparr>wlog := l\<rparr>) = notify_calls v" for f l and v :: io_world
    by (simp_all add: notify_calls_def)
  then show ?thesis
    using assms
    by (auto simp: io_event_new_def io_event_drop_def run_simps io_state_ops io_state_values
        io_core_new_def phase_of_def split: if_splits)
qed

theorem event_new_no_leak_witness:
  "wlog (snd (run_state (io_event_new (sample_platform (\<lambda>c. if c = CreateEventW then 9 else 0)) OvEvent
       (base_environ (sample_platform (\<lambda>c. 0)) 1 2)) idle_world)) =
     [CreateEventW, CreateThreadpoolWait (base_environ (sample_platform (\<lambda>c. 0)) 1 2),
      GetLastError, CloseHandle 9]"
proof -
  let ?p = "sample_platform (\<lambda>c. if c = CreateEventW then 9 else 0)"
  let ?ce = "base_environ (sample_platform (\<lambda>c. 0)) 1 2"
  obtain r w' where run: "run_state (io_event_new ?p OvEvent ?ce) idle_world = (r, w')" by force
  moreover have "fst (run_state (io_event_new ?p OvEvent ?ce) idle_world) = Err (Os 0)"
    by (simp add: io_event_new_def run_simps split: prod.split)
  ultimately show ?thesis
    using event_new_no_leak [OF run] by (simp add: notify_calls_def)
qed

lemma run_io_event_drop:
  "run_state (io_event_drop p env self) w =
     (let w1 = w\<lparr>wlog := wlog w @ notify_calls w\<rparr> in
      case spin_while (\<lambda>w. is_busy (st (cores w (ev_ov self)))) env w1 of
        None \<Rightarrow> (None, w1)
      | Some w2 \<Rightarrow> (Some (), w2\<lparr>wlog := wlog w2 @
           (if ev_wait self \<noteq> 0 then [CloseThreadpoolWait (ev_wait self)] else []) @
           [CloseHandle (ev_hEvent self)]\<rparr>))"
  by (simp add: io_event_drop_def run_simps Let_def split: option.split)

text \<open>
  Property: dropping an event waits for its operation. With an operation pending, the drop
  does not return as long as the wait callback has not run, however often it looks; once the
  callback has run, it returns, with the outcome stored, and only then closes the wait and the
  event, once each.
\<close>

theorem event_drop_waits:
  assumes "valid_at (ev_ov self) w" and "phase_at (ev_ov self) w = PendingIo" and "ev_wait self \<noteq> 0"
  shows "fst (run_state (io_event_drop p (replicate m (\<lambda>w. w)) self) w) = None \<and>
    (\<exists>w1 w2. run_state (io_event_drop p
         (replicate m (\<lambda>w. w) @ (\<lambda>w. snd (run_state (io_event_callback p [] self r) w)) # env) self) w = (Some (), w2) \<and>
       phase_at (ev_ov self) w1 = Complete \<and> cell_at (ev_ov self) w1 = io_result_set r 0 \<and>
       w2 = w1\<lparr>wlog := wlog w1 @ [CloseThreadpoolWait (ev_wait self), CloseHandle (ev_hEvent self)]\<rparr>)"
proof -
  let ?b = "\<lambda>w. is_busy (st (cores w (ev_ov self)))"
  let ?cb = "\<lambda>w. snd (run_state (io_event_callback p [] self r) w)"
  let ?w0 = "w\<lparr>wlog := wlog w @ notify_calls w\<rparr>"
  let ?w1 = "?cb ?w0"
  have busy: "?b ?w0"
    using assms(1,2) by (simp add: iost.busy)
  have cb: "phase_at (ev_ov self) ?w1 = Complete" "cell_at (ev_ov self) ?w1 = io_result_set r 0"
    "valid_at (ev_ov self) ?w1"
    using io_event_callback_pending [of ?w0 self p "[]" r] assms(1,2) by (simp_all add: valid_state_def)
  then have "\<not> ?b ?w1" by (simp add: iost.busy)
  then have "spin_while ?b (replicate m (\<lambda>w. w) @ ?cb # env) ?w0 = Some ?w1"
    using busy by (induction m) simp_all
  moreover have "spin_while ?b (replicate m (\<lambda>w. w)) ?w0 = None"
    using busy by (induction m) simp_all
  ultimately show ?thesis
    using cb(1,2) assms(3) by (auto simp: run_io_event_drop Let_def)
qed

theorem event_drop_waits_witness:
  "let w = upd_core OvEvent (\<lambda>c. c\<lparr>st := PENDING\<rparr>) idle_world; p = sample_platform (\<lambda>c. 5)
   in fst (run_state (io_event_drop p (replicate 3 (\<lambda>w. w)) \<lparr>ev_wait = 3, ev_hEvent = 4, ev_ov = OvEvent\<rparr>) w) = None \<and>
     (\<exists>w1 w2. run_state (io_event_drop p
         (replicate 3 (\<lambda>w. w) @ (\<lambda>w. snd (run_state (io_event_callback p [] \<lparr>ev_wait = 3, ev_hEvent = 4, ev_ov = OvEvent\<rparr> 0) w)) # [])
         \<lparr>ev_wait = 3, ev_hEvent = 4, ev_ov = OvEvent\<rparr>) w = (Some (), w2) \<and>
       phase_at OvEvent w1 = Complete \<and> cell_at OvEvent w1 = io_result_set 0 0 \<and>
       w2 = w1\<lparr>wlog := wlog w1 @ [CloseThreadpoolWait 3, CloseHandle 4]\<rparr>)"
  using event_drop_waits [of "upd_core OvEvent (\<lambda>c. c\<lparr>st := PENDING\<rparr>) idle_world"
      "\<lparr>ev_wait = 3, ev_hEvent = 4, ev_ov = OvEvent\<rparr>" "sample_platform (\<lambda>c. 5)" 3 0 "[]"]
  by (simp add: Let_def valid_state_def)

end
