(* ===== verification/Io_Handle.thy ===== *)
theory Io_Handle
  imports Io_Event
begin

text \<open>
  \<open>src/io/shared/handle.rs\<close>: a Win32 handle bound to a thread-pool I/O object, with a read
  half and a write half that each run one overlapped operation at a time. The schedule,
  cancel and close functions are function pointers given to \<open>IoHandle::new\<close>; for sockets they
  are in the theory of TCP.

  The operations here run to the end of each call, with other threads acting at the points
  where the code yields; their finer interleaving is in the theory \<open>Io_Race\<close>.
\<close>

section \<open>Data\<close>

type_synonym schedule_fn = "ptr \<Rightarrow> overlapped \<Rightarrow> wsabuf \<Rightarrow> (io_world, usize res poll) state"
type_synonym cancel_fn = "ptr \<Rightarrow> overlapped \<Rightarrow> bool \<Rightarrow> (io_world, unit res) state"
type_synonym close_fn = "ptr \<Rightarrow> (io_world, unit) state"

record io_half =
  half_overlapped :: overlapped
  half_schedule :: schedule_fn
  half_cancel :: cancel_fn

record io_handle =
  io_hd :: ptr
  ptp_io :: ptr
  io_close :: close_fn
  io_read :: io_half
  io_write :: io_half

definition io_half_new :: "overlapped \<Rightarrow> schedule_fn \<Rightarrow> cancel_fn \<Rightarrow> (io_world, io_half) state" where
  "io_half_new ov sch can =
     State (\<lambda>w. (\<lparr>half_overlapped = ov, half_schedule = sch, half_cancel = can\<rparr>,
                upd_core ov (\<lambda>_. io_core_new) w))"

section \<open>Operations\<close>

definition io_handle_callback ::
  "platform \<Rightarrow> (io_world \<Rightarrow> io_world) list \<Rightarrow> io_handle \<Rightarrow> overlapped \<Rightarrow> u32 \<Rightarrow> usize
     \<Rightarrow> (io_world, unit res option) state" where
  "io_handle_callback p env context overlapped result transferred =
     (if overlapped = half_overlapped (io_read context) \<or>
         overlapped = half_overlapped (io_write context)
      then do {
        won \<leftarrow> callback_pending_op overlapped env;
        case won of
          None \<Rightarrow> State_Monad.return None
        | Some won \<Rightarrow> do {
            claimed \<leftarrow> (if won then State_Monad.return True
                        else st_op overlapped callback_cancelled_nowait);
            if claimed then do {
              _ \<leftarrow> cell_set overlapped result transferred;
              _ \<leftarrow> st_set overlapped set_ready;
              _ \<leftarrow> wake_task p overlapped;
              State_Monad.return (Some (Ok ()))
            } else do {
              cancelled \<leftarrow> st_op overlapped callback_cancelled_wait;
              _ \<leftarrow> (if cancelled then st_set overlapped set_ready else State_Monad.return ());
              State_Monad.return (Some (Ok ()))
            } } }
      else State_Monad.return (Some (Fault (Panicked ''internal error: entered unreachable code''))))"

definition io_handle_poll ::
  "platform \<Rightarrow> io_handle \<Rightarrow> io_half \<Rightarrow> waker \<Rightarrow> wsabuf \<Rightarrow> (io_world, usize res poll) state" where
  "io_handle_poll p self half cx buf =
     (let ov = half_overlapped half in do {
       finished \<leftarrow> st_op ov finish;
       if finished then do {
         result \<leftarrow> cell_get ov;
         _ \<leftarrow> st_set ov set_idle;
         State_Monad.return (Ready result)
       } else do {
         scheduling \<leftarrow> st_op ov schedule;
         if scheduling then do {
           _ \<leftarrow> sys p (StartThreadpoolIo (ptp_io self));
           poll \<leftarrow> half_schedule half (io_hd self) ov buf;
           case poll of
             Ready result \<Rightarrow> do {
               _ \<leftarrow> register ov cx;
               _ \<leftarrow> st_set ov set_idle;
               State_Monad.return (Ready result) }
           | Pending \<Rightarrow> do {
               _ \<leftarrow> st_set ov set_pending;
               State_Monad.return Pending }
         } else do {
           _ \<leftarrow> register ov cx;
           State_Monad.return Pending
         } } })"

definition io_handle_poll_read ::
  "platform \<Rightarrow> io_handle \<Rightarrow> waker \<Rightarrow> wsabuf \<Rightarrow> (io_world, usize res poll) state" where
  "io_handle_poll_read p self cx buf = io_handle_poll p self (io_read self) cx buf"

definition io_handle_poll_write ::
  "platform \<Rightarrow> io_handle \<Rightarrow> waker \<Rightarrow> wsabuf \<Rightarrow> (io_world, usize res poll) state" where
  "io_handle_poll_write p self cx buf = io_handle_poll p self (io_write self) cx buf"

text \<open>\<open>None\<close>: the call is still waiting for the operation to end.\<close>

definition io_handle_cancel ::
  "platform \<Rightarrow> (io_world \<Rightarrow> io_world) list \<Rightarrow> io_handle \<Rightarrow> io_half \<Rightarrow> bool
     \<Rightarrow> (io_world, unit res option) state" where
  "io_handle_cancel p env self half wait =
     (let ov = half_overlapped half in do {
       cancellable \<leftarrow> st_load ov is_cancellable;
       if \<not> cancellable then State_Monad.return (Some (Ok ()))
       else do {
         do_cancel \<leftarrow> st_op ov (cancel wait);
         _ \<leftarrow> (if wait then notify_may_block p else State_Monad.return ());
         ret \<leftarrow> (if do_cancel then half_cancel half (io_hd self) ov wait
                else State_Monad.return (Ok ()));
         idle \<leftarrow> (if wait then spin (\<lambda>w. is_busy (st (cores w ov))) env
                 else State_Monad.return (Some ()));
         State_Monad.return (map_option (\<lambda>_. ret) idle)
       } })"

definition io_handle_cancel_read ::
  "platform \<Rightarrow> (io_world \<Rightarrow> io_world) list \<Rightarrow> io_handle \<Rightarrow> bool \<Rightarrow> (io_world, unit res option) state" where
  "io_handle_cancel_read p env self wait = io_handle_cancel p env self (io_read self) wait"

definition io_handle_cancel_write ::
  "platform \<Rightarrow> (io_world \<Rightarrow> io_world) list \<Rightarrow> io_handle \<Rightarrow> bool \<Rightarrow> (io_world, unit res option) state" where
  "io_handle_cancel_write p env self wait = io_handle_cancel p env self (io_write self) wait"

text \<open>\<open>x.unwrap()\<close> in a function that returns nothing.\<close>

definition unwrap_then ::
  "(io_world, unit res option) state \<Rightarrow> (io_world, unit res option) state \<Rightarrow> (io_world, unit res option) state"
  where
  "unwrap_then m rest = do {
     r \<leftarrow> m;
     case r of
       None \<Rightarrow> State_Monad.return None
     | Some r \<Rightarrow> (case unwrap r of Ok _ \<Rightarrow> rest | x \<Rightarrow> State_Monad.return (Some x)) }"

definition io_handle_drop ::
  "platform \<Rightarrow> (io_world \<Rightarrow> io_world) list \<Rightarrow> (io_world \<Rightarrow> io_world) list \<Rightarrow> io_handle
     \<Rightarrow> (io_world, unit res option) state" where
  "io_handle_drop p env_read env_write self =
     unwrap_then (io_handle_cancel_read p env_read self True)
       (unwrap_then (io_handle_cancel_write p env_write self True)
         (do {
           _ \<leftarrow> (if ptp_io self \<noteq> 0 then sys p (CloseThreadpoolIo (ptp_io self))
                else State_Monad.return 0);
           _ \<leftarrow> io_close self (io_hd self);
           State_Monad.return (Some (Ok ()))
         }))"

definition io_handle_new ::
  "platform \<Rightarrow> ptr \<Rightarrow> close_fn \<Rightarrow> schedule_fn \<Rightarrow> cancel_fn \<Rightarrow> schedule_fn \<Rightarrow> cancel_fn \<Rightarrow> tp_environ
     \<Rightarrow> (io_world, io_handle res) state" where
  "io_handle_new p handle close schedule_read cancel_read schedule_write cancel_write callback_environ = do {
     r \<leftarrow> io_half_new OvRead schedule_read cancel_read;
     t \<leftarrow> io_half_new OvWrite schedule_write cancel_write;
     let this = \<lparr>io_hd = handle, ptp_io = 0, io_close = close, io_read = r, io_write = t\<rparr>;
     ptp \<leftarrow> sys p (CreateThreadpoolIo handle callback_environ);
     if ptp = 0 then do {
       e \<leftarrow> fail_last p;
       _ \<leftarrow> io_handle_drop p [] [] this;
       State_Monad.return e
     } else State_Monad.return (Ok (this\<lparr>ptp_io := ptp\<rparr>)) }"

section \<open>Running the operations\<close>

text \<open>The world in which \<open>poll\<close> calls the schedule function.\<close>

definition started_world :: "io_handle \<Rightarrow> overlapped \<Rightarrow> io_world \<Rightarrow> io_world" where
  "started_world self ov w =
     scheduling_world ov (w\<lparr>wlog := wlog w @ [StartThreadpoolIo (ptp_io self)]\<rparr>)"

lemma io_handle_poll_start:
  assumes "phase_at (half_overlapped half) w = Idle" and "valid_at (half_overlapped half) w"
  shows "run_state (io_handle_poll p self half k buf) w =
    (let ov = half_overlapped half in
     case run_state (half_schedule half (io_hd self) ov buf) (started_world self ov w) of
       (Ready r, w') \<Rightarrow>
         (Ready r, upd_core ov (\<lambda>c. c\<lparr>aw := aw c @ [Register k], st := IDLE\<rparr>) w')
     | (Pending, w') \<Rightarrow> (Pending, upd_core ov (\<lambda>c. c\<lparr>st := PENDING\<rparr>) w'))"
proof -
  have "st (cores w (half_overlapped half)) = IDLE" using assms valid_phase_iff(1) by blast
  then show ?thesis
    by (simp add: io_handle_poll_def run_simps io_state_ops io_state_values scheduling_world_def
        started_world_def Let_def split: prod.split poll.split) (simp add: upd_core_def)
qed

lemma io_handle_poll_busy:
  assumes "phase_at (half_overlapped half) w \<noteq> Idle" and "phase_at (half_overlapped half) w \<noteq> Complete"
    and "valid_at (half_overlapped half) w"
  shows "run_state (io_handle_poll p self half k buf) w =
    (Pending, upd_core (half_overlapped half) (\<lambda>c. c\<lparr>aw := aw c @ [Register k]\<rparr>) w)"
proof -
  have "st (cores w (half_overlapped half)) \<noteq> IDLE" "st (cores w (half_overlapped half)) \<noteq> READY"
    using assms valid_phase_iff(1,5) by blast+
  then show ?thesis
    by (simp add: io_handle_poll_def run_simps io_state_ops Let_def)
qed

lemma io_handle_poll_take:
  assumes "phase_at (half_overlapped half) w = Complete" and "valid_at (half_overlapped half) w"
  shows "run_state (io_handle_poll p self half k buf) w =
    (Ready (io_result_get (cell_at (half_overlapped half) w)),
     upd_core (half_overlapped half) (\<lambda>c. c\<lparr>st := IDLE\<rparr>) w)"
proof -
  have "st (cores w (half_overlapped half)) = READY" using assms valid_phase_iff(5) by blast
  then show ?thesis
    by (simp add: io_handle_poll_def run_simps io_state_ops Let_def)
qed

text \<open>Halves of a handle: the two have different overlapped structures.\<close>

definition is_half :: "io_handle \<Rightarrow> overlapped \<Rightarrow> bool" where
  "is_half self ov \<longleftrightarrow> ov = half_overlapped (io_read self) \<or> ov = half_overlapped (io_write self)"

lemma io_handle_callback_complete:
  assumes "is_half self ov" and "phase_at ov w = PendingIo \<or> phase_at ov w = CancelledNowait"
    and "valid_at ov w"
  shows "run_state (io_handle_callback p env self ov r n) w =
    (Some (Ok ()), snd (run_state (wake_task p ov)
       (upd_core ov (\<lambda>c. c\<lparr>cell := io_result_set r n, st := READY\<rparr>) w)))"
proof -
  have "st (cores w ov) = PENDING \<or> st (cores w ov) = CANCELLED_NOWAIT"
    using assms valid_phase_iff(3,6) by blast
  then show ?thesis
    using assms(1)
    by (auto simp: io_handle_callback_def is_half_def run_simps io_state_ops io_state_values
        run_wake_task split: option.split)
qed

lemma io_handle_callback_cancelled:
  assumes "is_half self ov" and "phase_at ov w = CancelledWait" and "valid_at ov w"
  shows "run_state (io_handle_callback p env self ov r n) w =
    (Some (Ok ()), upd_core ov (\<lambda>c. c\<lparr>st := READY\<rparr>) w)"
proof -
  have "st (cores w ov) = CANCELLED_WAIT" using assms valid_phase_iff(7) by blast
  then show ?thesis
    using assms(1)
    by (simp add: io_handle_callback_def is_half_def run_simps io_state_ops io_state_values)
qed

lemma io_handle_callback_stale:
  assumes "is_half self ov" and "phase_at ov w \<in> {Idle, InCallback, Complete}" and "valid_at ov w"
  shows "run_state (io_handle_callback p env self ov r n) w = (Some (Ok ()), w)"
proof -
  have "st (cores w ov) = IDLE \<or> st (cores w ov) = CALLBACK \<or> st (cores w ov) = READY"
    using assms valid_phase_iff(1,4,5) by blast
  then show ?thesis
    using assms(1)
    by (auto simp: io_handle_callback_def is_half_def run_simps io_state_ops upd_core_same)
qed

section \<open>A half keeps the contract of a completion object\<close>

definition half_pends :: "io_handle \<Rightarrow> io_half \<Rightarrow> wsabuf \<Rightarrow> io_world \<Rightarrow> bool" where
  "half_pends self half buf w \<longleftrightarrow>
     fst (run_state (half_schedule half (io_hd self) (half_overlapped half) buf)
       (started_world self (half_overlapped half) w)) = Pending"

text \<open>The halves of a handle are its read half and its write half.\<close>

definition half_of :: "io_handle \<Rightarrow> bool \<Rightarrow> io_half" where
  "half_of self wr = (if wr then io_write self else io_read self)"

lemma is_half_half_of [simp]: "is_half self (half_overlapped (half_of self wr))"
  by (simp add: is_half_def half_of_def)

interpretation half: completion "phase_at (half_overlapped (half_of self wr))"
  "valid_at (half_overlapped (half_of self wr))" "cell_at (half_overlapped (half_of self wr))"
  "\<lambda>k buf. run_state (io_handle_poll p self (half_of self wr) k buf)"
  "half_pends self (half_of self wr)"
  "\<lambda>r n w. snd (run_state (io_handle_callback p env self (half_overlapped (half_of self wr)) r n) w)"
  io_result_set "\<lambda>c w. io_result_get c"
  for p self wr env
proof (unfold_locales, goal_cases)
  case (1 s sch k)
  then show ?case
    by (auto simp: io_handle_poll_start half_pends_def valid_state_def Let_def split: prod.split poll.split)
next
  case (2 s k sch)
  then show ?case by (simp add: io_handle_poll_busy)
next
  case (3 s r n)
  then show ?case
    by (simp add: io_handle_callback_complete) (simp add: valid_state_def)
next
  case (4 s r n k sch)
  then show ?case by (simp add: io_handle_poll_take)
qed

section \<open>Cancellation\<close>

text \<open>Code that leaves the memory of the operations alone, as the Win32 calls do.\<close>

definition core_neutral :: "(io_world, 'a) state \<Rightarrow> bool" where
  "core_neutral m \<longleftrightarrow> (\<forall>w. cores (snd (run_state m w)) = cores w)"

lemma core_neutralD: "core_neutral m \<Longrightarrow> run_state m w = (x, w') \<Longrightarrow> cores w' = cores w"
  unfolding core_neutral_def by (metis snd_conv)

lemma io_handle_cancel_not_pending:
  assumes "valid_at (half_overlapped half) w" and "phase_at (half_overlapped half) w \<noteq> PendingIo"
  shows "run_state (io_handle_cancel p env self half wt) w = (Some (Ok ()), w)"
  using assms by (simp add: io_handle_cancel_def run_simps Let_def iost.cancellable)

text \<open>The world in which the cancel function of a half is called.\<close>

definition cancelling_world :: "bool \<Rightarrow> overlapped \<Rightarrow> io_world \<Rightarrow> io_world" where
  "cancelling_world wt ov w =
     upd_core ov (\<lambda>c. c\<lparr>st := (if wt then CANCELLED_WAIT else CANCELLED_NOWAIT)\<rparr>)
       (w\<lparr>wlog := wlog w @ (if wt then notify_calls w else [])\<rparr>)"

lemma io_handle_cancel_pending:
  assumes "valid_at (half_overlapped half) w" and "phase_at (half_overlapped half) w = PendingIo"
  shows "run_state (io_handle_cancel p env self half wt) w =
    (case run_state (half_cancel half (io_hd self) (half_overlapped half) wt)
            (cancelling_world wt (half_overlapped half) w) of
       (ret, w1) \<Rightarrow>
         if wt then (case spin_while (\<lambda>w. is_busy (st (cores w (half_overlapped half)))) env w1 of
            None \<Rightarrow> (None, w1) | Some w2 \<Rightarrow> (Some ret, w2))
         else (Some ret, w1))"
proof -
  have "st (cores w (half_overlapped half)) = PENDING" using assms valid_phase_iff(3) by blast
  moreover have "notify_calls (upd_core ov f v) = notify_calls v" for f ov and v :: io_world
    by (simp add: notify_calls_def)
  ultimately show ?thesis
    by (cases wt) (simp_all add: io_handle_cancel_def run_simps io_state_ops Let_def
        cancelling_world_def split: prod.split option.split)
qed

section \<open>Properties\<close>

text \<open>
  Property C4: the life of a read or write. From an idle half, a poll whose schedule function
  leaves the operation pending answers \<open>Pending\<close>, and so does every further poll; after the
  I/O callback ran with error code \<open>r\<close> and byte count \<open>n\<close>, the next poll is \<open>Ready\<close> with the
  byte count, or with the error when \<open>r\<close> is not zero; and the half is idle again.
\<close>

theorem half_operation:
  fixes k k' :: waker and buf buf' :: wsabuf and r :: u32 and n :: usize and wr :: bool
    and p :: platform and self :: io_handle
    and ks :: "(waker \<times> wsabuf) list" and env :: "(io_world \<Rightarrow> io_world) list"
  defines "half \<equiv> half_of self wr"
  defines "ov \<equiv> half_overlapped half"
  defines "pol \<equiv> \<lambda>k buf. run_state (io_handle_poll p self half k buf)"
  assumes "valid_at ov w" and "phase_at ov w = Idle" and "half_pends self half buf w"
  defines "w1 \<equiv> snd (pol k buf w)"
  defines "w2 \<equiv> snd (run_state (io_handle_callback p env self ov r n) (snd (polls pol ks w1)))"
  shows "fst (pol k buf w) = Pending \<and> set (fst (polls pol ks w1)) \<subseteq> {Pending} \<and>
    fst (pol k' buf' w2) = Ready (if r = 0 then Ok n else Err (Os (sint r))) \<and>
    phase_at ov (snd (pol k' buf' w2)) = Idle"
  using half.operation [OF assms(4-6) [unfolded ov_def half_def], where ks = ks and r = r and env = env]
  unfolding pol_def w1_def w2_def ov_def half_def io_result_get_set by blast

text \<open>A handle for the witnesses, whose operations stay pending and whose cancel succeeds.\<close>

definition sample_io_handle :: "platform \<Rightarrow> io_handle" where
  "sample_io_handle p = \<lparr>io_hd = 21, ptp_io = 22,
     io_close = (\<lambda>h. do { _ \<leftarrow> sys p (closesocket h); State_Monad.return () }),
     io_read = \<lparr>half_overlapped = OvRead, half_schedule = (\<lambda>_ _ _. State_Monad.return Pending),
       half_cancel = (\<lambda>h ov _. do { r \<leftarrow> sys p (CancelIoEx h ov);
          if r \<noteq> 0 then State_Monad.return (Ok ()) else fail_last p })\<rparr>,
     io_write = \<lparr>half_overlapped = OvWrite, half_schedule = (\<lambda>_ _ _. State_Monad.return Pending),
       half_cancel = (\<lambda>h ov _. do { r \<leftarrow> sys p (CancelIoEx h ov);
          if r \<noteq> 0 then State_Monad.return (Ok ()) else fail_last p })\<rparr>\<rparr>"

lemma sample_io_handle_sel [simp]:
  "io_hd (sample_io_handle p) = 21" "ptp_io (sample_io_handle p) = 22"
  "half_overlapped (io_read (sample_io_handle p)) = OvRead"
  "half_overlapped (io_write (sample_io_handle p)) = OvWrite"
  "half_schedule (io_read (sample_io_handle p)) h ov b = State_Monad.return Pending"
  "half_of (sample_io_handle p) False = io_read (sample_io_handle p)"
  by (simp_all add: sample_io_handle_def half_of_def)

lemma sample_half_cancel:
  "half_cancel (io_read (sample_io_handle p)) h ov b =
     do { r \<leftarrow> sys p (CancelIoEx h ov); if r \<noteq> 0 then State_Monad.return (Ok ()) else fail_last p }"
  by (simp add: sample_io_handle_def)

lemma sample_half_cancel_neutral [simp]:
  "core_neutral (half_cancel (io_read (sample_io_handle p)) h ov b)"
  by (simp add: core_neutral_def sample_half_cancel run_simps)

abbreviation pending_read :: io_world where
  "pending_read \<equiv> upd_core OvRead (\<lambda>c. c\<lparr>st := PENDING\<rparr>) idle_world"

theorem half_operation_witness:
  "let p = sample_platform (\<lambda>c. 5); self = sample_io_handle p; b = \<lparr>buf_len = 10, buf_ptr = 99\<rparr>;
       pol = (\<lambda>k buf. run_state (io_handle_poll p self (io_read self) k buf));
       w1 = snd (pol 7 b idle_world);
       w2 = snd (run_state (io_handle_callback p [] self OvRead 0 10) (snd (polls pol [(8, b)] w1)))
   in fst (pol 7 b w2) = Ready (Ok 10)"
  using half_operation [where w = idle_world and self = "sample_io_handle (sample_platform (\<lambda>c. 5))"
      and p = "sample_platform (\<lambda>c. 5)" and wr = False and buf = "\<lparr>buf_len = 10, buf_ptr = 99\<rparr>"
      and buf' = "\<lparr>buf_len = 10, buf_ptr = 99\<rparr>" and k = 7 and k' = 7 and r = 0 and n = 10
      and ks = "[(8, \<lparr>buf_len = 10, buf_ptr = 99\<rparr>)]" and env = "[]"]
  by (simp add: Let_def half_pends_def)

text \<open>
  Property: cancelling without waiting is delivered as a completion. On a pending operation,
  \<open>cancel(false)\<close> calls the cancel function once and returns its answer; the operation ends
  with its callback, and the next poll returns what the callback reported.
\<close>

theorem cancel_nowait_delivers:
  assumes "valid_at (half_overlapped half) w" and "phase_at (half_overlapped half) w = PendingIo"
    and "is_half self (half_overlapped half)"
    and "core_neutral (half_cancel half (io_hd self) (half_overlapped half) False)"
    and "run_state (half_cancel half (io_hd self) (half_overlapped half) False)
           (cancelling_world False (half_overlapped half) w) = (ret, w1)"
  shows "run_state (io_handle_cancel p env self half False) w = (Some ret, w1) \<and>
    fst (run_state (io_handle_poll p self half k buf)
      (snd (run_state (io_handle_callback p env' self (half_overlapped half) r n) w1))) =
      Ready (if r = 0 then Ok n else Err (Os (sint r)))"
proof -
  let ?ov = "half_overlapped half"
  have c: "cores w1 = cores (cancelling_world False ?ov w)"
    using core_neutralD [OF assms(4,5)] .
  then have w1: "phase_at ?ov w1 = CancelledNowait" "valid_at ?ov w1"
    by (simp_all add: cancelling_world_def valid_state_def)
  let ?w2 = "snd (run_state (io_handle_callback p env' self ?ov r n) w1)"
  have "phase_at ?ov ?w2 = Complete" "valid_at ?ov ?w2" "cell_at ?ov ?w2 = io_result_set r n"
    using io_handle_callback_complete [OF assms(3), of w1] w1 by (simp_all add: valid_state_def)
  then show ?thesis
    using assms(5)
    by (simp add: io_handle_cancel_pending [OF assms(1,2)] io_handle_poll_take io_result_get_set)
qed

theorem cancel_nowait_delivers_witness:
  "let p = sample_platform (\<lambda>c. 1); self = sample_io_handle p;
       w1 = snd (run_state (io_handle_cancel p [] self (io_read self) False) pending_read)
   in fst (run_state (io_handle_poll p self (io_read self) 3 \<lparr>buf_len = 1, buf_ptr = 9\<rparr>)
      (snd (run_state (io_handle_callback p [] self OvRead 995 0) w1))) = Ready (Err (Os 995))"
proof -
  let ?p = "sample_platform (\<lambda>c. 1)"
  let ?self = "sample_io_handle ?p"
  obtain ret w1 where run: "run_state (half_cancel (io_read ?self) (io_hd ?self)
      (half_overlapped (io_read ?self)) False)
      (cancelling_world False (half_overlapped (io_read ?self)) pending_read) = (ret, w1)"
    by force
  show ?thesis
    using cancel_nowait_delivers [OF _ _ _ _ run, where p = ?p and env = "[]" and env' = "[]"
        and k = 3 and buf = "\<lparr>buf_len = 1, buf_ptr = 9\<rparr>" and r = 995 and n = 0]
    by (simp add: Let_def is_half_def valid_state_def)
qed

text \<open>
  Property: cancelling with waiting ends only when the operation has ended. On a pending
  operation, \<open>cancel(true)\<close> does not return as long as the I/O callback has not run, however
  often it looks at the state; once the callback ran it returns the answer of the cancel
  function, and the half is complete.
\<close>

theorem cancel_wait_waits:
  fixes p :: platform and r :: u32 and n :: usize
  assumes "valid_at (half_overlapped half) w" and "phase_at (half_overlapped half) w = PendingIo"
    and "is_half self (half_overlapped half)"
    and "core_neutral (half_cancel half (io_hd self) (half_overlapped half) True)"
  defines "cb \<equiv> \<lambda>w. snd (run_state (io_handle_callback p [] self (half_overlapped half) r n) w)"
  defines "can \<equiv> run_state (half_cancel half (io_hd self) (half_overlapped half) True)
             (cancelling_world True (half_overlapped half) w)"
  shows "fst (run_state (io_handle_cancel p (replicate m (\<lambda>w. w)) self half True) w) = None \<and>
    run_state (io_handle_cancel p (replicate m (\<lambda>w. w) @ cb # env) self half True) w =
      (Some (fst can), cb (snd can)) \<and>
    phase_at (half_overlapped half) (cb (snd can)) = Complete"
proof -
  let ?ov = "half_overlapped half"
  let ?b = "\<lambda>w. is_busy (st (cores w ?ov))"
  obtain ret w1 where run: "can = (ret, w1)" by force
  have "cores w1 = cores (cancelling_world True ?ov w)"
    using core_neutralD [OF assms(4)] run by (metis can_def)
  then have w1: "phase_at ?ov w1 = CancelledWait" "valid_at ?ov w1"
    by (simp_all add: cancelling_world_def valid_state_def)
  then have busy: "?b w1" by (simp add: iost.busy)
  have cb: "phase_at ?ov (cb w1) = Complete" "\<not> ?b (cb w1)"
    using io_handle_callback_cancelled [OF assms(3) w1] by (simp_all add: cb_def is_busy_def)
  have "spin_while ?b (replicate m (\<lambda>w. w)) w1 = None"
    using busy by (induction m) simp_all
  moreover have "spin_while ?b (replicate m (\<lambda>w. w) @ cb # env) w1 = Some (cb w1)"
    using busy cb(2) by (induction m) simp_all
  ultimately show ?thesis
    using run cb(1) by (simp add: io_handle_cancel_pending [OF assms(1,2)] can_def)
qed

theorem cancel_wait_waits_witness:
  "let p = sample_platform (\<lambda>c. 1); self = sample_io_handle p;
       cb = (\<lambda>w. snd (run_state (io_handle_callback p [] self OvRead 995 0) w))
   in fst (run_state (io_handle_cancel p (replicate 4 (\<lambda>w. w)) self (io_read self) True) pending_read) = None \<and>
     fst (run_state (io_handle_cancel p (replicate 4 (\<lambda>w. w) @ [cb]) self (io_read self) True) pending_read) =
       Some (Ok ())"
  using cancel_wait_waits [where half = "io_read (sample_io_handle (sample_platform (\<lambda>c. 1)))"
      and w = pending_read and self = "sample_io_handle (sample_platform (\<lambda>c. 1))"
      and p = "sample_platform (\<lambda>c. 1)" and m = 4 and r = 995 and n = 0 and env = "[]"]
  by (simp add: Let_def is_half_def valid_state_def)
    (simp add: sample_half_cancel run_simps)

text \<open>Repeated polls of a pending half only register wakers.\<close>

lemma half_polls_pending:
  assumes "phase_at (half_overlapped half) w = PendingIo" and "valid_at (half_overlapped half) w"
  shows "snd (polls (\<lambda>k buf. run_state (io_handle_poll p self half k buf)) ks w) =
    upd_core (half_overlapped half) (\<lambda>c. c\<lparr>aw := aw c @ map (Register \<circ> fst) ks\<rparr>) w"
  using assms
proof (induction ks arbitrary: w)
  case Nil
  then show ?case by (simp add: upd_core_same)
next
  case (Cons x ks)
  then show ?case by (simp add: io_handle_poll_busy)
qed

text \<open>
  Property C37: the poll that starts an operation does not register its waker. On a fresh half
  whose schedule function leaves the operation pending, the I/O callback wakes the task that
  polled last \<^emph>\<open>after\<close> the starting poll; when there was no such poll (the task returned
  \<open>Pending\<close> and waits to be woken), it wakes nobody.
\<close>

theorem starting_poll_not_woken:
  fixes k :: waker and buf :: wsabuf and ks :: "(waker \<times> wsabuf) list"
    and p :: platform and self :: io_handle and half :: io_half
  assumes "waker_law p" and "is_half self (half_overlapped half)"
    and "valid_at (half_overlapped half) w" and "phase_at (half_overlapped half) w = Idle"
    and "aw (cores w (half_overlapped half)) = []"
    and "half_pends self half buf w"
    and "core_neutral (half_schedule half (io_hd self) (half_overlapped half) buf)"
  defines "pol \<equiv> \<lambda>k buf. run_state (io_handle_poll p self half k buf)"
  defines "w1 \<equiv> snd (polls pol ks (snd (pol k buf w)))"
  shows "calls_of (io_handle_callback p env self (half_overlapped half) r n) w1 =
    (if ks = [] then [] else [WakeTask (last (map fst ks))])"
proof -
  let ?ov = "half_overlapped half"
  obtain w0 where sch: "run_state (half_schedule half (io_hd self) ?ov buf) (started_world self ?ov w) = (Pending, w0)"
    using assms(6) by (auto simp: half_pends_def) (metis prod.collapse)
  let ?w0 = "upd_core ?ov (\<lambda>c. c\<lparr>st := PENDING\<rparr>) w0"
  have "snd (pol k buf w) = ?w0"
    by (simp add: pol_def io_handle_poll_start [OF assms(4,3)] sch Let_def)
  moreover have "phase_at ?ov ?w0 = PendingIo" "valid_at ?ov ?w0"
    by (simp_all add: valid_state_def)
  ultimately have w1: "w1 = upd_core ?ov (\<lambda>c. c\<lparr>aw := aw c @ map (Register \<circ> fst) ks\<rparr>) ?w0"
    unfolding w1_def pol_def by (simp only: half_polls_pending)
  have st: "phase_at ?ov w1 = PendingIo" "valid_at ?ov w1"
    unfolding w1 by (simp_all add: valid_state_def)
  have "aw (cores w0 ?ov) = []"
    using core_neutralD [OF assms(7) sch] assms(5) by (simp add: started_world_def scheduling_world_def)
  then have "aw (cores w1 ?ov) = map Register (map fst ks)" unfolding w1 by simp
  then have "aw_wake p (aw (cores w1 ?ov)) = (if ks = [] then None else Some (last (map fst ks)))"
    using aw_wake_registered [OF assms(1), of "map fst ks" "[]"] waker_lawD(1) [OF assms(1)] by auto
  then show ?thesis
    using io_handle_callback_complete [OF assms(2), of w1] st by (simp add: calls_of_def run_wake_task)
qed

theorem starting_poll_not_woken_witness:
  "let p = sample_platform (\<lambda>c. 5); self = sample_io_handle p; b = \<lparr>buf_len = 10, buf_ptr = 99\<rparr>;
       w1 = snd (run_state (io_handle_poll p self (io_read self) 7 b) idle_world)
   in calls_of (io_handle_callback p [] self OvRead 0 10) w1 = []"
  using starting_poll_not_woken [where p = "sample_platform (\<lambda>c. 5)" and w = idle_world
      and self = "sample_io_handle (sample_platform (\<lambda>c. 5))"
      and half = "io_read (sample_io_handle (sample_platform (\<lambda>c. 5)))"
      and buf = "\<lparr>buf_len = 10, buf_ptr = 99\<rparr>" and ks = "[]" and k = 7 and env = "[]" and r = 0 and n = 10]
  by (simp add: Let_def half_pends_def is_half_def core_neutral_def)

text \<open>
  Property C38: a waiting cancel leaves a completed half whose result was never written. After
  \<open>cancel(true)\<close> on a pending operation has returned, the next poll (of the next operation)
  starts nothing and answers at once with the cell as it was before: the result of an earlier
  operation, or a read of uninitialised memory when there was none.
\<close>

theorem cancel_wait_leaves_stale_result:
  fixes p :: platform and r :: u32 and n :: usize
  assumes "valid_at (half_overlapped half) w" and "phase_at (half_overlapped half) w = PendingIo"
    and "is_half self (half_overlapped half)"
    and "core_neutral (half_cancel half (io_hd self) (half_overlapped half) True)"
  defines "cb \<equiv> \<lambda>w. snd (run_state (io_handle_callback p [] self (half_overlapped half) r n) w)"
  shows "\<exists>ret w1. run_state (io_handle_cancel p [cb] self half True) w = (Some ret, w1) \<and>
    run_state (io_handle_poll p self half k buf) w1 =
      (Ready (io_result_get (cell_at (half_overlapped half) w)),
       upd_core (half_overlapped half) (\<lambda>c. c\<lparr>st := IDLE\<rparr>) w1)"
proof -
  let ?ov = "half_overlapped half"
  obtain ret w1 where run: "run_state (half_cancel half (io_hd self) ?ov True) (cancelling_world True ?ov w) = (ret, w1)"
    by force
  have c: "cores w1 = cores (cancelling_world True ?ov w)" using core_neutralD [OF assms(4) run] .
  then have w1: "phase_at ?ov w1 = CancelledWait" "valid_at ?ov w1"
    by (simp_all add: cancelling_world_def valid_state_def)
  then have busy: "is_busy (st (cores w1 ?ov))" by (simp add: iost.busy)
  have cb: "cb w1 = upd_core ?ov (\<lambda>c. c\<lparr>st := READY\<rparr>) w1"
    using io_handle_callback_cancelled [OF assms(3) w1] by (simp add: cb_def)
  then have fin: "\<not> is_busy (st (cores (cb w1) ?ov))" "phase_at ?ov (cb w1) = Complete"
    "valid_at ?ov (cb w1)" "cell_at ?ov (cb w1) = cell_at ?ov w"
    by (simp_all add: is_busy_def valid_state_def c cancelling_world_def)
  have "run_state (io_handle_cancel p [cb] self half True) w = (Some ret, cb w1)"
    using busy fin(1) by (simp add: io_handle_cancel_pending [OF assms(1,2)] run)
  then show ?thesis using io_handle_poll_take [OF fin(2,3)] fin(4) by auto
qed

theorem cancel_wait_leaves_stale_result_witness:
  "let p = sample_platform (\<lambda>c. 1); self = sample_io_handle p;
       cb = (\<lambda>w. snd (run_state (io_handle_callback p [] self OvRead 995 0) w))
   in \<exists>ret w1. run_state (io_handle_cancel p [cb] self (io_read self) True) pending_read = (Some ret, w1) \<and>
     fst (run_state (io_handle_poll p self (io_read self) 3 \<lparr>buf_len = 1, buf_ptr = 9\<rparr>) w1) =
       Ready (Fault (Undefined ''read of an uninitialised IoResult''))"
  using cancel_wait_leaves_stale_result [where half = "io_read (sample_io_handle (sample_platform (\<lambda>c. 1)))"
      and w = pending_read and self = "sample_io_handle (sample_platform (\<lambda>c. 1))"
      and p = "sample_platform (\<lambda>c. 1)" and r = 995 and n = 0 and k = 3
      and buf = "\<lparr>buf_len = 1, buf_ptr = 9\<rparr>"]
  by (auto simp: Let_def is_half_def valid_state_def io_result_get_def)

text \<open>
  Property: a waiting cancel that follows one that did not wait does not wait. After
  \<open>cancel(false)\<close> (\<open>Read::cancel\<close>), \<open>cancel(true)\<close> (dropping the \<open>Read\<close>) returns at once,
  makes no call and leaves the half busy: the operation, and its use of the buffer, goes on.
\<close>

theorem cancel_wait_after_nowait_returns:
  fixes p :: platform and env :: "(io_world \<Rightarrow> io_world) list"
  assumes "valid_at (half_overlapped half) w" and "phase_at (half_overlapped half) w = PendingIo"
    and "core_neutral (half_cancel half (io_hd self) (half_overlapped half) False)"
  defines "w1 \<equiv> snd (run_state (io_handle_cancel p env self half False) w)"
  shows "run_state (io_handle_cancel p env' self half True) w1 = (Some (Ok ()), w1) \<and>
    is_busy (st (cores w1 (half_overlapped half)))"
proof -
  let ?ov = "half_overlapped half"
  obtain ret w2 where run: "run_state (half_cancel half (io_hd self) ?ov False) (cancelling_world False ?ov w) = (ret, w2)"
    by force
  have "cores w2 = cores (cancelling_world False ?ov w)" using core_neutralD [OF assms(3) run] .
  then have "phase_at ?ov w2 = CancelledNowait" "valid_at ?ov w2"
    by (simp_all add: cancelling_world_def valid_state_def)
  moreover have "w1 = w2" by (simp add: w1_def io_handle_cancel_pending [OF assms(1,2)] run)
  ultimately show ?thesis by (simp add: io_handle_cancel_not_pending iost.busy)
qed

theorem cancel_wait_after_nowait_returns_witness:
  "let p = sample_platform (\<lambda>c. 1); self = sample_io_handle p;
       w1 = snd (run_state (io_handle_cancel p [] self (io_read self) False) pending_read)
   in run_state (io_handle_cancel p [] self (io_read self) True) w1 = (Some (Ok ()), w1)"
  using cancel_wait_after_nowait_returns [where half = "io_read (sample_io_handle (sample_platform (\<lambda>c. 1)))"
      and w = pending_read and self = "sample_io_handle (sample_platform (\<lambda>c. 1))"
      and p = "sample_platform (\<lambda>c. 1)" and env = "[]" and env' = "[]"]
  by (simp add: Let_def valid_state_def)

text \<open>
  Property: the life of the handle itself. Creation either binds the handle to a new I/O object
  with two idle halves, or, when that fails, closes the handle (by dropping the half-built
  object) and reports the error of the failed call; and dropping a handle whose halves have no
  pending operation closes the I/O object and then the handle, once each.
\<close>

theorem handle_new_drop:
  assumes "run_state (io_handle_new p h close sr cr sw cw ce) w = (res, w')"
  defines "l \<equiv> wlog w @ [CreateThreadpoolIo h ce]"
  shows "case res of
      Ok self \<Rightarrow> io_hd self = h \<and> ptp_io self \<noteq> 0 \<and> wlog w' = l \<and>
        cores w' OvRead = io_core_new \<and> cores w' OvWrite = io_core_new \<and>
        (\<forall>env env'. run_state (io_handle_drop p env env' self) w' =
           (Some (Ok ()), snd (run_state (close h) (w'\<lparr>wlog := wlog w' @ [CloseThreadpoolIo (ptp_io self)]\<rparr>))))
    | Err e \<Rightarrow> e = Os (win p l GetLastError) \<and>
        w' = snd (run_state (close h) (upd_core OvWrite (\<lambda>_. io_core_new)
           (upd_core OvRead (\<lambda>_. io_core_new) (w\<lparr>wlog := l @ [GetLastError]\<rparr>))))
    | Fault f \<Rightarrow> False"
proof -
  have drop: "run_state (io_handle_drop p env env' self) v =
      (Some (Ok ()), snd (run_state (close (io_hd self)) (v\<lparr>wlog := wlog v @
         (if ptp_io self \<noteq> 0 then [CloseThreadpoolIo (ptp_io self)] else [])\<rparr>)))"
    if "st (cores v (half_overlapped (io_read self))) = IDLE"
      "st (cores v (half_overlapped (io_write self))) = IDLE" "io_close self = close"
    for self env env' v
    using that
    by (simp add: io_handle_drop_def unwrap_then_def io_handle_cancel_read_def
        io_handle_cancel_write_def io_handle_cancel_not_pending run_simps split: prod.split)
  show ?thesis
    using assms(1)
    by (auto simp: io_handle_new_def io_half_new_def run_simps l_def drop Let_def
        split: if_splits prod.splits)
qed

theorem handle_new_drop_witness:
  "let p = sample_platform (\<lambda>c. 0); cl = (\<lambda>h. do { _ \<leftarrow> sys p (closesocket h); State_Monad.return () });
       sch = (\<lambda>_ _ _. State_Monad.return Pending); can = (\<lambda>_ _ _. State_Monad.return (Ok ()));
       ce = base_environ p 1 2
   in wlog (snd (run_state (io_handle_new p 33 cl sch can sch can ce) idle_world)) =
        [CreateThreadpoolIo 33 ce, GetLastError, closesocket 33]"
proof -
  let ?p = "sample_platform (\<lambda>c. 0)"
  let ?cl = "\<lambda>h. do { _ \<leftarrow> sys ?p (closesocket h); State_Monad.return () }"
  let ?sch = "\<lambda>_ _ _. State_Monad.return Pending"
  let ?can = "\<lambda>_ _ _. State_Monad.return (Ok ())"
  let ?m = "io_handle_new ?p 33 ?cl ?sch ?can ?sch ?can (base_environ ?p 1 2)"
  obtain res w' where run: "run_state ?m idle_world = (res, w')" by force
  moreover have "\<exists>e. fst (run_state ?m idle_world) = Err e"
    by (simp add: io_handle_new_def io_half_new_def run_simps Let_def split: prod.split)
  ultimately show ?thesis
    using handle_new_drop [OF run] by (auto simp: Let_def run_simps)
qed

text \<open>
  Property: dropping a handle panics, and leaves the I/O object and the handle open, when the
  cancellation of its pending read reports an error (for instance because the operation
  completed in the meantime).
\<close>

theorem drop_panics_on_cancel_error:
  fixes p :: platform and r :: u32 and n :: usize
  assumes "valid_at (half_overlapped (io_read self)) w"
    and "phase_at (half_overlapped (io_read self)) w = PendingIo"
    and "run_state (half_cancel (io_read self) (io_hd self) (half_overlapped (io_read self)) True)
           (cancelling_world True (half_overlapped (io_read self)) w) = (Err e, w1)"
    and "core_neutral (half_cancel (io_read self) (io_hd self) (half_overlapped (io_read self)) True)"
  defines "cb \<equiv> \<lambda>w. snd (run_state (io_handle_callback p [] self (half_overlapped (io_read self)) r n) w)"
  shows "run_state (io_handle_drop p [cb] env self) w =
    (Some (Fault (Panicked ''called Result::unwrap() on an Err value'')), cb w1) \<and> wlog (cb w1) = wlog w1"
proof -
  let ?ov = "half_overlapped (io_read self)"
  have "cores w1 = cores (cancelling_world True ?ov w)" using core_neutralD [OF assms(4,3)] .
  then have w1: "phase_at ?ov w1 = CancelledWait" "valid_at ?ov w1"
    by (simp_all add: cancelling_world_def valid_state_def)
  have "is_half self ?ov" by (simp add: is_half_def)
  from io_handle_callback_cancelled [OF this w1]
  have cb: "cb w1 = upd_core ?ov (\<lambda>c. c\<lparr>st := READY\<rparr>) w1" by (simp add: cb_def)
  have "run_state (io_handle_cancel_read p [cb] self True) w = (Some (Err e), cb w1)"
    using w1 cb
    by (simp add: io_handle_cancel_read_def io_handle_cancel_pending [OF assms(1,2)] assms(3) iost.busy
        is_busy_def [of READY])
  then show ?thesis by (simp add: io_handle_drop_def unwrap_then_def cb)
qed

theorem drop_panics_on_cancel_error_witness:
  "let p = sample_platform (\<lambda>c. 0); self = sample_io_handle p;
       cb = (\<lambda>w. snd (run_state (io_handle_callback p [] self OvRead 0 4) w))
   in fst (run_state (io_handle_drop p [cb] [] self) pending_read) =
        Some (Fault (Panicked ''called Result::unwrap() on an Err value'')) \<and>
      closesocket 21 \<notin> set (wlog (snd (run_state (io_handle_drop p [cb] [] self) pending_read)))"
proof -
  let ?p = "sample_platform (\<lambda>c. 0)"
  let ?self = "sample_io_handle ?p"
  have "run_state (half_cancel (io_read ?self) (io_hd ?self) (half_overlapped (io_read ?self)) True)
      (cancelling_world True (half_overlapped (io_read ?self)) pending_read) =
      (Err (Os 0), upd_core OvRead (\<lambda>c. c\<lparr>st := CANCELLED_WAIT\<rparr>)
         (idle_world\<lparr>wlog := [CancelIoEx 21 OvRead, GetLastError]\<rparr>))"
    by (simp add: sample_half_cancel run_simps cancelling_world_def notify_calls_def)
  from drop_panics_on_cancel_error [OF _ _ this, where p = ?p and r = 0 and n = 4 and env = "[]"]
  show ?thesis by (simp add: Let_def valid_state_def)
qed

end
