(* ===== verification/Io_Race.thy ===== *)
theory Io_Race
  imports Io_State
begin

text \<open>
  One half of an \<open>IoHandle\<close> (\<open>src/io/shared/handle.rs\<close>) at the grain of its atomic steps:
  the thread that owns the half (polls and cancels take \<open>&mut self\<close>, so there is one at a
  time) against the completion callbacks the system runs on other threads. The steps are the
  operations of \<open>Io_State\<close>.

  The operations the owner starts are numbered; \<open>outcome i\<close> is what the system reports for the
  \<open>i\<close>-th. An operation the system accepts as pending is completed by one callback. An
  operation that succeeds at once has a completion of its own too, unless the handle is in the
  mode \<open>FILE_SKIP_COMPLETION_PORT_ON_SUCCESS\<close>, which the crate does not set: the parameter
  \<open>skip\<close> of the step relation. The parameter \<open>cancels\<close> admits the steps of \<open>cancel\<close>.
\<close>

section \<open>Steps\<close>

text \<open>Where the owner is: in \<open>poll\<close>, in \<open>cancel\<close>, or in neither.\<close>

datatype owner_pc =
    O_out
  | O_get \<comment> \<open>before \<open>result.get()\<close>\<close>
  | O_took "usize res" \<comment> \<open>before \<open>set_idle()\<close>, with the result\<close>
  | O_try \<comment> \<open>before \<open>schedule()\<close>\<close>
  | O_start \<comment> \<open>before the schedule function\<close>
  | O_ready \<comment> \<open>it answered \<open>Ready\<close>: before \<open>set_idle()\<close>\<close>
  | O_pending \<comment> \<open>it answered \<open>Pending\<close>: before \<open>set_pending()\<close>\<close>
  | O_register \<comment> \<open>before \<open>waker.register\<close>\<close>
  | O_cancel bool \<comment> \<open>before the swap of \<open>cancel(wait)\<close>\<close>
  | O_ask bool bool \<comment> \<open>before the cancel function, if it is to be called\<close>
  | O_spin \<comment> \<open>in the loop of a waiting cancel\<close>

text \<open>Where the completion of an operation is.\<close>

datatype cb_pc =
    C_none \<comment> \<open>there is none\<close>
  | C_flight \<comment> \<open>the system has not called the callback yet\<close>
  | C_load \<comment> \<open>in the loop of \<open>callback_pending\<close>\<close>
  | C_pending \<comment> \<open>before its exchange\<close>
  | C_nowait \<comment> \<open>before \<open>callback_cancelled_nowait()\<close>\<close>
  | C_wait \<comment> \<open>before \<open>callback_cancelled_wait()\<close>\<close>
  | C_set \<comment> \<open>before \<open>result.set\<close>\<close>
  | C_ready \<comment> \<open>before \<open>set_ready()\<close> and the wake\<close>
  | C_ready_only \<comment> \<open>before the \<open>set_ready()\<close> of a cancelled operation\<close>
  | C_wake \<comment> \<open>before \<open>waker.wake()\<close>\<close>
  | C_done

record race =
  r_word :: usize
  r_cell :: io_result
  r_aw :: atomic_waker
  r_owner :: owner_pc
  r_cur :: nat \<comment> \<open>the number of operations started\<close>
  r_cb :: "nat \<Rightarrow> cb_pc"
  r_taken :: "(nat \<times> usize res) list" \<comment> \<open>what polls answered for which operation\<close>

definition race_init :: race where
  "race_init = \<lparr>r_word = io_state_new, r_cell = io_result_new, r_aw = [], r_owner = O_out,
     r_cur = 0, r_cb = (\<lambda>_. C_none), r_taken = []\<rparr>"

definition at_cb :: "nat \<Rightarrow> cb_pc \<Rightarrow> race \<Rightarrow> race" where
  "at_cb i c s = s\<lparr>r_cb := (r_cb s)(i := c)\<rparr>"

text \<open>The steps of \<open>IoHandle::poll\<close>.\<close>

inductive poll_step :: "bool \<Rightarrow> race \<Rightarrow> race \<Rightarrow> bool" for skip where
  finish: "r_owner s = O_out \<Longrightarrow>
    poll_step skip s (s\<lparr>r_word := snd (finish (r_word s)),
      r_owner := (if fst (finish (r_word s)) then O_get else O_try)\<rparr>)"
| get: "r_owner s = O_get \<Longrightarrow>
    poll_step skip s (s\<lparr>r_owner := O_took (io_result_get (r_cell s))\<rparr>)"
| take: "r_owner s = O_took v \<Longrightarrow>
    poll_step skip s (s\<lparr>r_word := set_idle (r_word s), r_owner := O_out,
      r_taken := r_taken s @ [(r_cur s, v)]\<rparr>)"
| schedule: "r_owner s = O_try \<Longrightarrow>
    poll_step skip s (s\<lparr>r_word := snd (schedule (r_word s)),
      r_owner := (if fst (schedule (r_word s)) then O_start else O_register)\<rparr>)"
| pends: "r_owner s = O_start \<Longrightarrow>
    poll_step skip s (at_cb (Suc (r_cur s)) C_flight (s\<lparr>r_cur := Suc (r_cur s), r_owner := O_pending\<rparr>))"
| succeeds: "r_owner s = O_start \<Longrightarrow>
    poll_step skip s (at_cb (Suc (r_cur s)) (if skip then C_none else C_flight)
      (s\<lparr>r_cur := Suc (r_cur s), r_owner := O_ready\<rparr>))"
| fails: "r_owner s = O_start \<Longrightarrow> poll_step skip s (s\<lparr>r_cur := Suc (r_cur s), r_owner := O_ready\<rparr>)"
| ready: "r_owner s = O_ready \<Longrightarrow>
    poll_step skip s (s\<lparr>r_word := set_idle (r_word s), r_aw := r_aw s @ [Register 0], r_owner := O_out\<rparr>)"
| pending: "r_owner s = O_pending \<Longrightarrow>
    poll_step skip s (s\<lparr>r_word := set_pending (r_word s), r_owner := O_out\<rparr>)"
| register: "r_owner s = O_register \<Longrightarrow>
    poll_step skip s (s\<lparr>r_aw := r_aw s @ [Register 0], r_owner := O_out\<rparr>)"

text \<open>The steps of the completion callback of operation \<open>i\<close>.\<close>

inductive cb_step :: "(nat \<Rightarrow> u32 \<times> usize) \<Rightarrow> nat \<Rightarrow> race \<Rightarrow> race \<Rightarrow> bool" for outcome i where
  called: "r_cb s i = C_flight \<Longrightarrow> cb_step outcome i s (at_cb i C_load s)"
| load: "r_cb s i = C_load \<Longrightarrow>
    cb_step outcome i s (at_cb i (if r_word s = SCHEDULING then C_load else C_pending) s)"
| claim: "r_cb s i = C_pending \<Longrightarrow>
    cb_step outcome i s (at_cb i (if fst (compare_exchange PENDING CALLBACK (r_word s)) then C_set else C_nowait)
      (s\<lparr>r_word := snd (compare_exchange PENDING CALLBACK (r_word s))\<rparr>))"
| claim_nowait: "r_cb s i = C_nowait \<Longrightarrow>
    cb_step outcome i s (at_cb i (if fst (callback_cancelled_nowait (r_word s)) then C_set else C_wait)
      (s\<lparr>r_word := snd (callback_cancelled_nowait (r_word s))\<rparr>))"
| claim_wait: "r_cb s i = C_wait \<Longrightarrow>
    cb_step outcome i s (at_cb i (if fst (callback_cancelled_wait (r_word s)) then C_ready_only else C_done)
      (s\<lparr>r_word := snd (callback_cancelled_wait (r_word s))\<rparr>))"
| set: "r_cb s i = C_set \<Longrightarrow>
    cb_step outcome i s (at_cb i C_ready (s\<lparr>r_cell := io_result_set (fst (outcome i)) (snd (outcome i))\<rparr>))"
| set_ready: "r_cb s i = C_ready \<Longrightarrow>
    cb_step outcome i s (at_cb i C_wake (s\<lparr>r_word := set_ready (r_word s)\<rparr>))"
| set_ready_only: "r_cb s i = C_ready_only \<Longrightarrow>
    cb_step outcome i s (at_cb i C_done (s\<lparr>r_word := set_ready (r_word s)\<rparr>))"
| wake: "r_cb s i = C_wake \<Longrightarrow> cb_step outcome i s (at_cb i C_done (s\<lparr>r_aw := r_aw s @ [Wake]\<rparr>))"

text \<open>The steps of \<open>IoHandle::cancel\<close>. The cancel function does not touch the half.\<close>

inductive cancel_step :: "race \<Rightarrow> race \<Rightarrow> bool" where
  load: "r_owner s = O_out \<Longrightarrow>
    cancel_step s (s\<lparr>r_owner := (if is_cancellable (r_word s) then O_cancel wt else O_out)\<rparr>)"
| swap: "r_owner s = O_cancel wt \<Longrightarrow>
    cancel_step s (s\<lparr>r_word := snd (cancel wt (r_word s)), r_owner := O_ask wt (fst (cancel wt (r_word s)))\<rparr>)"
| ask: "r_owner s = O_ask wt do_cancel \<Longrightarrow>
    cancel_step s (s\<lparr>r_owner := (if wt then O_spin else O_out)\<rparr>)"
| spin: "r_owner s = O_spin \<Longrightarrow>
    cancel_step s (s\<lparr>r_owner := (if is_busy (r_word s) then O_spin else O_out)\<rparr>)"

inductive race_step ::
  "(nat \<Rightarrow> u32 \<times> usize) \<Rightarrow> bool \<Rightarrow> bool \<Rightarrow> race \<Rightarrow> race \<Rightarrow> bool" for outcome skip cancels where
  poll: "poll_step skip s t \<Longrightarrow> race_step outcome skip cancels s t"
| callback: "cb_step outcome i s t \<Longrightarrow> race_step outcome skip cancels s t"
| cancel: "cancels \<Longrightarrow> cancel_step s t \<Longrightarrow> race_step outcome skip cancels s t"

abbreviation race_run ::
  "(nat \<Rightarrow> u32 \<times> usize) \<Rightarrow> bool \<Rightarrow> bool \<Rightarrow> race \<Rightarrow> race \<Rightarrow> bool" where
  "race_run outcome skip cancels \<equiv> (race_step outcome skip cancels)\<^sup>*\<^sup>*"

inductive_cases poll_stepE: "poll_step skip s t"
inductive_cases cb_stepE: "cb_step outcome i s t"
inductive_cases cancel_stepE: "cancel_step s t"
inductive_cases race_stepE: "race_step outcome skip cancels s t"

lemma at_cb_sel [simp]:
  "r_word (at_cb i c s) = r_word s" "r_cell (at_cb i c s) = r_cell s" "r_aw (at_cb i c s) = r_aw s"
  "r_owner (at_cb i c s) = r_owner s" "r_cur (at_cb i c s) = r_cur s"
  "r_cb (at_cb i c s) = (r_cb s)(i := c)" "r_taken (at_cb i c s) = r_taken s"
  by (simp_all add: at_cb_def)

section \<open>Polls and completions, without cancels\<close>

text \<open>What a poll should answer for operation \<open>i\<close>.\<close>

definition answer_of :: "(nat \<Rightarrow> u32 \<times> usize) \<Rightarrow> nat \<Rightarrow> usize res" where
  "answer_of outcome i = (let (r, n) = outcome i in if r = 0 then Ok n else Err (Os (sint r)))"

text \<open>
  The invariant: only the completion of the current operation is active, and the word says
  how far it and the owner are.
\<close>

definition over :: "cb_pc \<Rightarrow> bool" where
  "over c \<longleftrightarrow> c \<in> {C_none, C_wake, C_done}"

definition outside :: "owner_pc \<Rightarrow> bool" where
  "outside c \<longleftrightarrow> c \<in> {O_out, O_try, O_register}"

definition agree :: "(nat \<Rightarrow> u32 \<times> usize) \<Rightarrow> race \<Rightarrow> bool" where
  "agree outcome s \<longleftrightarrow> (let c = r_cb s (r_cur s); o1 = r_owner s;
      written = r_cell s = io_result_set (fst (outcome (r_cur s))) (snd (outcome (r_cur s))) in
    (r_word s = IDLE \<and> over c \<and> outside o1) \<or>
    (r_word s = SCHEDULING \<and> over c \<and> o1 \<in> {O_start, O_ready}) \<or>
    (r_word s = SCHEDULING \<and> c \<in> {C_flight, C_load} \<and> o1 = O_pending) \<or>
    (r_word s = PENDING \<and> c \<in> {C_flight, C_load, C_pending} \<and> outside o1) \<or>
    (r_word s = CALLBACK \<and> outside o1 \<and> (c = C_set \<or> c = C_ready \<and> written)) \<or>
    (r_word s = READY \<and> c \<in> {C_wake, C_done} \<and> written \<and>
      (outside o1 \<or> o1 = O_get \<or> o1 = O_took (answer_of outcome (r_cur s)))))"

definition race_inv :: "(nat \<Rightarrow> u32 \<times> usize) \<Rightarrow> race \<Rightarrow> bool" where
  "race_inv outcome s \<longleftrightarrow> agree outcome s \<and>
     (\<forall>i. i < r_cur s \<longrightarrow> over (r_cb s i)) \<and> (\<forall>i. r_cur s < i \<longrightarrow> r_cb s i = C_none) \<and>
     (\<forall>(i, v) \<in> set (r_taken s). v = answer_of outcome i)"

lemma answer_of_cell: "io_result_get (io_result_set (fst (outcome i)) (snd (outcome i))) = answer_of outcome i"
  by (simp add: io_result_get_def io_result_set_def NonZeroU32_new_def answer_of_def split: prod.split)

lemmas race_defs = race_inv_def agree_def over_def outside_def io_state_ops

lemma race_inv_init: "race_inv outcome race_init"
  by (simp add: race_defs race_init_def)

lemma race_inv_poll: "poll_step True s t \<Longrightarrow> race_inv outcome s \<Longrightarrow> race_inv outcome t"
  by (erule poll_stepE) (auto simp: race_defs Let_def answer_of_cell less_Suc_eq split: if_splits)

text \<open>The active completion is the one of the current operation.\<close>

lemma race_inv_active:
  assumes "race_inv outcome s" and "\<not> over (r_cb s i)"
  shows "i = r_cur s"
proof (rule ccontr)
  assume "i \<noteq> r_cur s"
  then have "i < r_cur s \<or> r_cur s < i" by linarith
  with assms show False by (auto simp: race_inv_def over_def)
qed

lemma race_inv_cb_current:
  "cb_step outcome i s t \<Longrightarrow> race_inv outcome s \<Longrightarrow> i = r_cur s \<Longrightarrow> race_inv outcome t"
  by (erule cb_stepE; simp add: race_defs Let_def split: if_splits; auto)

lemma race_inv_cb:
  assumes step: "cb_step outcome i s t" and inv: "race_inv outcome s"
  shows "race_inv outcome t"
proof (cases "i = r_cur s")
  case False
  then have "over (r_cb s i)" using race_inv_active [OF inv] by blast
  with step False inv show ?thesis
    by cases (auto simp: race_defs Let_def)
qed (use race_inv_cb_current [OF step inv] in blast)

lemma race_inv_run: "race_run outcome True False race_init s \<Longrightarrow> race_inv outcome s"
  by (induction rule: rtranclp_induct)
    (auto intro: race_inv_init race_inv_poll race_inv_cb elim!: race_stepE)


text \<open>
  Property C5: polls and completions are safe in every interleaving, when no cancel is issued
  and an operation that succeeds at once has no completion of its own. Every result a poll
  takes is the outcome of the operation that was started for it; the result cell is never
  read while a callback is about to write it; and a half on which nothing moves is not busy,
  so that the next poll takes a result or starts an operation.
\<close>

theorem race_results_are_own:
  assumes "race_run outcome True False race_init s"
  shows "(\<forall>(i, v) \<in> set (r_taken s). v = answer_of outcome i) \<and>
    (r_owner s = O_get \<longrightarrow> (\<forall>i. r_cb s i \<noteq> C_set) \<and>
       io_result_get (r_cell s) = answer_of outcome (r_cur s)) \<and>
    (r_owner s = O_out \<longrightarrow> (\<forall>i. over (r_cb s i)) \<longrightarrow> \<not> is_busy (r_word s))"
proof -
  have inv: "race_inv outcome s" by (rule race_inv_run [OF assms])
  have "r_cb s i \<noteq> C_set" if "r_owner s = O_get" for i
  proof
    assume "r_cb s i = C_set"
    moreover from this have "i = r_cur s" using race_inv_active [OF inv, of i] by (simp add: over_def)
    ultimately show False using inv that by (auto simp: race_defs Let_def)
  qed
  moreover have "io_result_get (r_cell s) = answer_of outcome (r_cur s)" if "r_owner s = O_get"
    using inv that by (auto simp: race_defs Let_def answer_of_cell)
  moreover have "\<not> is_busy (r_word s)" if "r_owner s = O_out" and "\<forall>i. over (r_cb s i)"
    using inv that(1) spec [OF that(2), of "r_cur s"] by (auto simp: race_defs Let_def)
  moreover have "\<forall>(i, v) \<in> set (r_taken s). v = answer_of outcome i"
    using inv by (simp add: race_inv_def)
  ultimately show ?thesis by blast
qed

section \<open>Runs\<close>

text \<open>
  Schedules, to drive the relation: the step of each kind that is enabled, as a function. A
  run of a schedule is a run of the relation.
\<close>

datatype move =
    M_poll \<comment> \<open>the next step of \<open>poll\<close>; the schedule function answers \<open>Pending\<close>\<close>
  | M_succeed \<comment> \<open>the schedule function answers \<open>Ready (Ok _)\<close>\<close>
  | M_cancel bool \<comment> \<open>the next step of \<open>cancel(wait)\<close>\<close>
  | M_cb nat \<comment> \<open>the next step of the completion of an operation\<close>

definition poll_move :: "race \<Rightarrow> race" where
  "poll_move s = (case r_owner s of
      O_out \<Rightarrow> s\<lparr>r_word := snd (finish (r_word s)),
        r_owner := (if fst (finish (r_word s)) then O_get else O_try)\<rparr>
    | O_get \<Rightarrow> s\<lparr>r_owner := O_took (io_result_get (r_cell s))\<rparr>
    | O_took v \<Rightarrow> s\<lparr>r_word := set_idle (r_word s), r_owner := O_out,
        r_taken := r_taken s @ [(r_cur s, v)]\<rparr>
    | O_try \<Rightarrow> s\<lparr>r_word := snd (schedule (r_word s)),
        r_owner := (if fst (schedule (r_word s)) then O_start else O_register)\<rparr>
    | O_start \<Rightarrow> at_cb (Suc (r_cur s)) C_flight (s\<lparr>r_cur := Suc (r_cur s), r_owner := O_pending\<rparr>)
    | O_ready \<Rightarrow> s\<lparr>r_word := set_idle (r_word s), r_aw := r_aw s @ [Register 0], r_owner := O_out\<rparr>
    | O_pending \<Rightarrow> s\<lparr>r_word := set_pending (r_word s), r_owner := O_out\<rparr>
    | O_register \<Rightarrow> s\<lparr>r_aw := r_aw s @ [Register 0], r_owner := O_out\<rparr>
    | _ \<Rightarrow> s)"

definition cancel_move :: "bool \<Rightarrow> race \<Rightarrow> race" where
  "cancel_move wt s = (case r_owner s of
      O_out \<Rightarrow> s\<lparr>r_owner := (if is_cancellable (r_word s) then O_cancel wt else O_out)\<rparr>
    | O_cancel wt \<Rightarrow> s\<lparr>r_word := snd (cancel wt (r_word s)),
        r_owner := O_ask wt (fst (cancel wt (r_word s)))\<rparr>
    | O_ask wt do_cancel \<Rightarrow> s\<lparr>r_owner := (if wt then O_spin else O_out)\<rparr>
    | O_spin \<Rightarrow> s\<lparr>r_owner := (if is_busy (r_word s) then O_spin else O_out)\<rparr>
    | _ \<Rightarrow> s)"

definition cb_move :: "(nat \<Rightarrow> u32 \<times> usize) \<Rightarrow> nat \<Rightarrow> race \<Rightarrow> race" where
  "cb_move outcome i s = (case r_cb s i of
      C_flight \<Rightarrow> at_cb i C_load s
    | C_load \<Rightarrow> at_cb i (if r_word s = SCHEDULING then C_load else C_pending) s
    | C_pending \<Rightarrow>
        at_cb i (if fst (compare_exchange PENDING CALLBACK (r_word s)) then C_set else C_nowait)
          (s\<lparr>r_word := snd (compare_exchange PENDING CALLBACK (r_word s))\<rparr>)
    | C_nowait \<Rightarrow> at_cb i (if fst (callback_cancelled_nowait (r_word s)) then C_set else C_wait)
        (s\<lparr>r_word := snd (callback_cancelled_nowait (r_word s))\<rparr>)
    | C_wait \<Rightarrow> at_cb i (if fst (callback_cancelled_wait (r_word s)) then C_ready_only else C_done)
        (s\<lparr>r_word := snd (callback_cancelled_wait (r_word s))\<rparr>)
    | C_set \<Rightarrow> at_cb i C_ready (s\<lparr>r_cell := io_result_set (fst (outcome i)) (snd (outcome i))\<rparr>)
    | C_ready \<Rightarrow> at_cb i C_wake (s\<lparr>r_word := set_ready (r_word s)\<rparr>)
    | C_ready_only \<Rightarrow> at_cb i C_done (s\<lparr>r_word := set_ready (r_word s)\<rparr>)
    | C_wake \<Rightarrow> at_cb i C_done (s\<lparr>r_aw := r_aw s @ [Wake]\<rparr>)
    | _ \<Rightarrow> s)"

fun do_move :: "(nat \<Rightarrow> u32 \<times> usize) \<Rightarrow> bool \<Rightarrow> move \<Rightarrow> race \<Rightarrow> race" where
  "do_move outcome skip M_poll s = poll_move s"
| "do_move outcome skip M_succeed s =
     (if r_owner s = O_start
      then at_cb (Suc (r_cur s)) (if skip then C_none else C_flight)
        (s\<lparr>r_cur := Suc (r_cur s), r_owner := O_ready\<rparr>)
      else s)"
| "do_move outcome skip (M_cancel wt) s = cancel_move wt s"
| "do_move outcome skip (M_cb i) s = cb_move outcome i s"

fun is_cancel :: "move \<Rightarrow> bool" where
  "is_cancel (M_cancel _) = True"
| "is_cancel _ = False"

lemma poll_move_step: "poll_move s = s \<or> poll_step skip s (poll_move s)"
  by (cases "r_owner s"; simp only: poll_move_def owner_pc.case; blast intro: poll_step.intros)

lemma cancel_move_step: "cancel_move wt s = s \<or> cancel_step s (cancel_move wt s)"
  by (cases "r_owner s"; simp only: cancel_move_def owner_pc.case; blast intro: cancel_step.intros)

lemma cb_move_step: "cb_move outcome i s = s \<or> cb_step outcome i s (cb_move outcome i s)"
  by (cases "r_cb s i"; simp only: cb_move_def cb_pc.case; blast intro: cb_step.intros)

lemma do_move_step:
  assumes "is_cancel m \<Longrightarrow> cancels"
  shows "do_move outcome skip m s = s \<or> race_step outcome skip cancels s (do_move outcome skip m s)"
proof (cases m)
  case M_poll
  then show ?thesis using poll_move_step [of s skip] by (auto intro: race_step.poll)
next
  case M_succeed
  then show ?thesis using poll_step.succeeds [of s skip] by (auto intro: race_step.poll)
next
  case (M_cancel wt)
  then show ?thesis using cancel_move_step [of wt s] assms by (auto intro: race_step.cancel)
next
  case (M_cb i)
  then show ?thesis using cb_move_step [of outcome i s] by (auto intro: race_step.callback)
qed

fun do_moves :: "(nat \<Rightarrow> u32 \<times> usize) \<Rightarrow> bool \<Rightarrow> move list \<Rightarrow> race \<Rightarrow> race" where
  "do_moves outcome skip [] s = s"
| "do_moves outcome skip (m # ms) s = do_moves outcome skip ms (do_move outcome skip m s)"

lemma do_moves_run:
  assumes "\<forall>m \<in> set ms. is_cancel m \<longrightarrow> cancels"
  shows "race_run outcome skip cancels s (do_moves outcome skip ms s)"
  using assms
proof (induction ms arbitrary: s)
  case (Cons m ms)
  then show ?case
    using do_move_step [of m cancels outcome skip s] by (auto intro: converse_rtranclp_into_rtranclp)
qed simp


lemmas move_simps = poll_move_def cancel_move_def cb_move_def io_state_ops race_init_def
  at_cb_def

text \<open>
  Property: without the mode that skips them, the completion of an operation that succeeded
  at once can be taken for the completion of the next one. There is a run, without any cancel,
  in which a poll answers for the second operation with the outcome of the first.
\<close>

theorem race_synchronous_mixup:
  "\<exists>s. race_run outcome False False race_init s \<and> (2, answer_of outcome 1) \<in> set (r_taken s)"
proof -
  let ?ms = "[M_poll, M_poll, M_succeed, M_poll, M_poll, M_poll, M_poll, M_poll,
    M_cb 1, M_cb 1, M_cb 1, M_cb 1, M_cb 1, M_poll, M_poll, M_poll]"
  let ?s = "do_moves outcome False ?ms race_init"
  have "race_run outcome False False race_init ?s" by (rule do_moves_run) simp
  moreover have "r_taken ?s = [(2, answer_of outcome 1)]"
    by (simp add: move_simps flip: answer_of_cell)
  ultimately show ?thesis by (intro exI [of _ ?s]) simp
qed

text \<open>
  A half that is cancelled although its completion is over: nothing but the owner moves it,
  and the owner cannot.
\<close>

definition stranded :: "bool \<Rightarrow> race \<Rightarrow> bool" where
  "stranded wt s \<longleftrightarrow> (\<forall>i. r_cb s i \<in> {C_none, C_done}) \<and>
     (if wt then r_word s = CANCELLED_WAIT \<and> r_owner s = O_spin
      else r_word s = CANCELLED_NOWAIT \<and> (outside (r_owner s) \<or> r_owner s = O_ask False True))"

lemma cb_stepD: "cb_step outcome i s t \<Longrightarrow> r_cb s i \<notin> {C_none, C_done}"
  by (auto elim!: cb_stepE)

lemma stranded_step:
  assumes "race_step outcome skip cancels s t" and "stranded wt s"
  shows "stranded wt t \<and> r_taken t = r_taken s"
  using assms(1)
proof (cases rule: race_step.cases)
  case poll
  then show ?thesis using assms(2)
    by cases (auto simp: stranded_def outside_def io_state_ops split: if_splits)
next
  case (callback i)
  then show ?thesis using assms(2) cb_stepD [of outcome i s t] by (simp add: stranded_def)
next
  case cancel
  from cancel(2) show ?thesis using assms(2)
    by cases (auto simp: stranded_def outside_def io_state_ops split: if_splits)
qed

lemma stranded_run:
  assumes "race_run outcome skip cancels s t" and "stranded wt s"
  shows "stranded wt t \<and> r_taken t = r_taken s"
  using assms(1)
proof (induction rule: rtranclp_induct)
  case (step u v)
  then show ?case using stranded_step [OF step.hyps(2), of wt] by simp
qed (use assms(2) in simp)

text \<open>
  Property C35: cancelling races with completion. \<open>cancel\<close> tests the word and then swaps it; if
  the completion comes between the two, the swap overwrites \<open>READY\<close>. There is a run to a state
  from which no poll ever takes a result again, whatever happens; and, when the cancel waits,
  to one from which it never stops waiting.
\<close>

theorem race_cancel_strands:
  "\<exists>s. race_run outcome True True race_init s \<and> r_cur s = 1 \<and>
     (\<forall>t. race_run outcome True True s t \<longrightarrow> r_taken t = [] \<and>
        r_word t = (if wt then CANCELLED_WAIT else CANCELLED_NOWAIT) \<and> (wt \<longrightarrow> r_owner t = O_spin))"
proof -
  let ?ms = "[M_poll, M_poll, M_poll, M_poll, M_cancel wt,
    M_cb 1, M_cb 1, M_cb 1, M_cb 1, M_cb 1, M_cb 1, M_cancel wt, M_cancel wt]"
  let ?s = "do_moves outcome True ?ms race_init"
  have "race_run outcome True True race_init ?s" by (rule do_moves_run) simp
  moreover have "stranded wt ?s" "r_taken ?s = []" "r_cur ?s = 1"
    by (cases wt; simp add: move_simps stranded_def outside_def)+
  ultimately obtain s where s: "race_run outcome True True race_init s" "stranded wt s"
    "r_taken s = []" "r_cur s = 1" by blast
  have "r_taken t = [] \<and> stranded wt t" if "race_run outcome True True s t" for t
    using stranded_run [OF that s(2)] s(3) by simp
  with s show ?thesis by (intro exI [of _ s]) (simp add: stranded_def)
qed

theorem race_cancel_strands_witness:
  "\<exists>s. race_run (\<lambda>_. (0, 5)) True True race_init s \<and> r_cur s = 1 \<and> r_taken s = [] \<and>
     r_word s = CANCELLED_WAIT \<and> r_owner s = O_spin"
  using race_cancel_strands [of "\<lambda>_. (0, 5)" True] by auto

text \<open>
  Property: a poll can register its waker too late. There is a run, without cancels, to a
  state where the operation is complete and its completion over, while the last poll answered
  \<open>Pending\<close> and its waker was registered after the wake: the waker is not woken until the half
  is polled again.
\<close>

theorem race_late_register:
  "\<exists>s. race_run outcome True False race_init s \<and> r_word s = READY \<and> r_owner s = O_out \<and>
     r_taken s = [] \<and> (\<forall>i. r_cb s i \<in> {C_none, C_done}) \<and> r_aw s = [Wake, Register 0]"
proof -
  let ?ms = "[M_poll, M_poll, M_poll, M_poll, M_poll,
    M_cb 1, M_cb 1, M_cb 1, M_cb 1, M_cb 1, M_cb 1, M_poll, M_poll]"
  let ?s = "do_moves outcome True ?ms race_init"
  have "race_run outcome True False race_init ?s" by (rule do_moves_run) simp
  moreover have "r_word ?s = READY" "r_owner ?s = O_out" "r_taken ?s = []"
    "\<forall>i. r_cb ?s i \<in> {C_none, C_done}" "r_aw ?s = [Wake, Register 0]"
    by (simp_all add: move_simps)
  ultimately show ?thesis by (intro exI [of _ ?s]) blast
qed

text \<open>A run through one operation, for the witness of the first property.\<close>

definition one_op :: "move list" where
  "one_op = [M_poll, M_poll, M_poll, M_cb 1, M_cb 1, M_poll, M_cb 1, M_cb 1, M_cb 1, M_cb 1,
     M_poll, M_poll, M_poll, M_cb 1]"

theorem race_results_are_own_witness:
  "r_taken (do_moves (\<lambda>_. (0, 5)) True one_op race_init) = [(1, answer_of (\<lambda>_. (0, 5)) 1)]"
proof -
  have "race_run (\<lambda>_. (0, 5)) True False race_init (do_moves (\<lambda>_. (0, 5)) True one_op race_init)"
    by (rule do_moves_run) (simp add: one_op_def)
  from race_results_are_own [OF this] have
    "\<forall>(i, v) \<in> set (r_taken (do_moves (\<lambda>_. (0, 5)) True one_op race_init)). v = answer_of (\<lambda>_. (0, 5)) i"
    by blast
  moreover have "r_taken (do_moves (\<lambda>_. (0, 5)) True one_op race_init) = [(1, Ok 5)]"
    by (simp add: one_op_def move_simps io_result_get_def io_result_set_def NonZeroU32_new_def)
  ultimately show ?thesis by simp
qed

end
