(* ===== verification/Io_Refine.thy ===== *)
theory Io_Refine
  imports Io_Handle Io_Race
begin

text \<open>
  The two models of \<open>src/io/shared/handle.rs\<close> agree: the operations of the theory \<open>Io_Handle\<close>, which run
  to the end of a call, are runs of the atomic steps of the theory \<open>Io_Race\<close>. What holds in every
  interleaving of the steps therefore holds of the operations.
\<close>

section \<open>The correspondence\<close>

text \<open>The step relation has one anonymous waker.\<close>

fun anonymous :: "aw_op \<Rightarrow> aw_op" where
  "anonymous (Register _) = Register 0"
| "anonymous Wake = Wake"

text \<open>The core of a half, with its owner at \<open>pc\<close>, as a state of the step relation.\<close>

definition simulates :: "owner_pc \<Rightarrow> overlapped \<Rightarrow> io_world \<Rightarrow> race \<Rightarrow> bool" where
  "simulates pc ov w s \<longleftrightarrow> r_owner s = pc \<and> r_word s = st (cores w ov) \<and> r_cell s = cell (cores w ov) \<and>
     r_aw s = map anonymous (aw (cores w ov))"

lemma simulates_cores: "cores w' ov = cores w ov \<Longrightarrow> simulates pc ov w' s = simulates pc ov w s"
  by (simp add: simulates_def)

section \<open>Polls\<close>

lemma poll_take_runs:
  assumes "simulates O_out ov w s" and "st (cores w ov) = READY"
  defines "r \<equiv> io_result_get (cell_at ov w)"
  shows "\<exists>t. race_run outcome skip cancels s t \<and>
    simulates O_out ov (upd_core ov (\<lambda>c. c\<lparr>st := IDLE\<rparr>) w) t \<and> r_taken t = r_taken s @ [(r_cur s, r)]"
proof -
  let ?t = "do_moves outcome skip [M_poll, M_poll, M_poll] s"
  have "race_run outcome skip cancels s ?t" by (rule do_moves_run) simp
  moreover have "simulates O_out ov (upd_core ov (\<lambda>c. c\<lparr>st := IDLE\<rparr>) w) ?t" "r_taken ?t = r_taken s @ [(r_cur s, r)]"
    using assms by (simp_all add: simulates_def poll_move_def io_state_ops)
  ultimately show ?thesis by blast
qed

lemma poll_busy_runs:
  assumes "simulates O_out ov w s" and "st (cores w ov) \<noteq> READY" and "st (cores w ov) \<noteq> IDLE"
  shows "\<exists>t. race_run outcome skip cancels s t \<and>
    simulates O_out ov (upd_core ov (\<lambda>c. c\<lparr>aw := aw c @ [Register k]\<rparr>) w) t \<and> r_taken t = r_taken s"
proof -
  let ?t = "do_moves outcome skip [M_poll, M_poll, M_poll] s"
  have "race_run outcome skip cancels s ?t" by (rule do_moves_run) simp
  moreover have "simulates O_out ov (upd_core ov (\<lambda>c. c\<lparr>aw := aw c @ [Register k]\<rparr>) w) ?t" "r_taken ?t = r_taken s"
    using assms by (simp_all add: simulates_def poll_move_def io_state_ops)
  ultimately show ?thesis by blast
qed

lemma poll_start_runs:
  assumes "simulates O_out ov w s" and "st (cores w ov) = IDLE"
  shows "\<exists>t. race_run outcome skip cancels s t \<and>
      simulates O_out ov (upd_core ov (\<lambda>c. c\<lparr>st := PENDING\<rparr>) w) t \<and> r_taken t = r_taken s \<and>
      r_cur t = Suc (r_cur s) \<and> r_cb t (r_cur t) = C_flight"
    and "\<exists>t. race_run outcome skip cancels s t \<and>
      simulates O_out ov (upd_core ov (\<lambda>c. c\<lparr>aw := aw c @ [Register k], st := IDLE\<rparr>) w) t \<and>
      r_taken t = r_taken s \<and> r_cur t = Suc (r_cur s)"
proof -
  let ?t = "do_moves outcome skip [M_poll, M_poll, M_poll, M_poll] s"
  have "race_run outcome skip cancels s ?t" by (rule do_moves_run) simp
  moreover have "simulates O_out ov (upd_core ov (\<lambda>c. c\<lparr>st := PENDING\<rparr>) w) ?t" "r_taken ?t = r_taken s"
    "r_cur ?t = Suc (r_cur s)" "r_cb ?t (r_cur ?t) = C_flight"
    using assms by (simp_all add: simulates_def poll_move_def io_state_ops)
  ultimately show "\<exists>t. race_run outcome skip cancels s t \<and>
      simulates O_out ov (upd_core ov (\<lambda>c. c\<lparr>st := PENDING\<rparr>) w) t \<and> r_taken t = r_taken s \<and>
      r_cur t = Suc (r_cur s) \<and> r_cb t (r_cur t) = C_flight" by blast
  let ?u = "do_moves outcome skip [M_poll, M_poll, M_succeed, M_poll] s"
  have "race_run outcome skip cancels s ?u" by (rule do_moves_run) simp
  moreover have "simulates O_out ov (upd_core ov (\<lambda>c. c\<lparr>aw := aw c @ [Register k], st := IDLE\<rparr>) w) ?u"
    "r_taken ?u = r_taken s" "r_cur ?u = Suc (r_cur s)"
    using assms by (simp_all add: simulates_def poll_move_def io_state_ops)
  ultimately show "\<exists>t. race_run outcome skip cancels s t \<and>
      simulates O_out ov (upd_core ov (\<lambda>c. c\<lparr>aw := aw c @ [Register k], st := IDLE\<rparr>) w) t \<and>
      r_taken t = r_taken s \<and> r_cur t = Suc (r_cur s)" by blast
qed

lemma poll_runs:
  assumes sim: "simulates O_out (half_overlapped half) w s" and valid: "valid_at (half_overlapped half) w"
    and neutral: "core_neutral (half_schedule half (io_hd self) (half_overlapped half) buf)"
  shows "\<exists>t. race_run outcome skip cancels s t \<and>
    simulates O_out (half_overlapped half) (snd (run_state (io_handle_poll p self half k buf) w)) t \<and>
    (case phase_at (half_overlapped half) w of
       Complete \<Rightarrow> \<exists>r. fst (run_state (io_handle_poll p self half k buf) w) = Ready r \<and> r_taken t = r_taken s @ [(r_cur s, r)]
     | Idle \<Rightarrow> r_taken t = r_taken s \<and> r_cur t = Suc (r_cur s) \<and>
         (fst (run_state (io_handle_poll p self half k buf) w) = Pending \<longrightarrow> r_cb t (r_cur t) = C_flight)
     | _ \<Rightarrow> r_taken t = r_taken s)"
proof -
  let ?ov = "half_overlapped half"
  consider "phase_at ?ov w = Complete" | "phase_at ?ov w = Idle" |
    "phase_at ?ov w \<noteq> Complete" "phase_at ?ov w \<noteq> Idle" by blast
  then show ?thesis
  proof cases
    case 1
    then have "st (cores w ?ov) = READY" using valid valid_phase_iff(5) by blast
    from poll_take_runs [OF sim this, of outcome skip cancels] show ?thesis
      using 1 by (simp add: io_handle_poll_take [OF 1 valid])
  next
    case 2
    then have idle: "st (cores w ?ov) = IDLE" using valid valid_phase_iff(1) by blast
    obtain r w1 where run: "run_state (half_schedule half (io_hd self) ?ov buf) (started_world self ?ov w) = (r, w1)"
      by fastforce
    have c: "cores w1 ?ov = (cores w ?ov)\<lparr>st := SCHEDULING\<rparr>"
      using core_neutralD [OF neutral run] by (simp add: started_world_def scheduling_world_def)
    show ?thesis
    proof (cases r)
      case Pending
      have "simulates O_out ?ov (upd_core ?ov (\<lambda>c. c\<lparr>st := PENDING\<rparr>) w1) t =
          simulates O_out ?ov (upd_core ?ov (\<lambda>c. c\<lparr>st := PENDING\<rparr>) w) t" for t
        by (rule simulates_cores) (simp add: c)
      with poll_start_runs(1) [OF sim idle, of outcome skip cancels] show ?thesis
        using 2 run Pending by (simp add: io_handle_poll_start [OF 2 valid] Let_def)
    next
      case (Ready x)
      have "simulates O_out ?ov (upd_core ?ov (\<lambda>c. c\<lparr>aw := aw c @ [Register k], st := IDLE\<rparr>) w1) t =
          simulates O_out ?ov (upd_core ?ov (\<lambda>c. c\<lparr>aw := aw c @ [Register k], st := IDLE\<rparr>) w) t" for t
        by (rule simulates_cores) (simp add: c)
      with poll_start_runs(2) [OF sim idle, of outcome skip cancels k] show ?thesis
        using 2 run Ready by (simp add: io_handle_poll_start [OF 2 valid] Let_def)
    qed
  next
    case 3
    then have "st (cores w ?ov) \<noteq> READY" "st (cores w ?ov) \<noteq> IDLE" using valid valid_phase_iff(1,5) by blast+
    from poll_busy_runs [OF sim this, of outcome skip cancels k] show ?thesis
      using 3 by (auto simp: io_handle_poll_busy [OF 3(2,1) valid] split: phase.splits)
  qed
qed

section \<open>Completions and cancels\<close>

lemma callback_runs:
  assumes sim: "simulates pc ov w s" and valid: "valid_at ov w" and half: "is_half self ov"
    and free: "phase_at ov w \<noteq> Scheduling" and flight: "r_cb s i = C_flight" and out: "outcome i = (r, n)"
  shows "\<exists>t. race_run outcome skip cancels s t \<and>
    simulates pc ov (snd (run_state (io_handle_callback p env self ov r n) w)) t \<and>
    r_cb t = (r_cb s)(i := C_done) \<and> r_taken t = r_taken s"
proof -
  let ?t = "do_moves outcome skip (replicate 7 (M_cb i)) s"
  have word: "r_word s = st (cores w ov)" using sim by (simp add: simulates_def)
  have run: "race_run outcome skip cancels s ?t" by (rule do_moves_run) auto
  note moves = numeral_eq_Suc cb_move_def io_state_ops flight out simulates_def word
  show ?thesis
  proof (cases "phase_at ov w")
    case PendingIo
    then have st: "st (cores w ov) = PENDING" using valid valid_phase_iff(3) by blast
    show ?thesis
      using run sim io_handle_callback_complete [OF half _ valid] PendingIo
      by (intro exI [of _ ?t]) (simp add: moves st run_wake_task split: option.split)
  next
    case CancelledNowait
    then have st: "st (cores w ov) = CANCELLED_NOWAIT" using valid valid_phase_iff(6) by blast
    show ?thesis
      using run sim io_handle_callback_complete [OF half _ valid] CancelledNowait
      by (intro exI [of _ ?t]) (simp add: moves st run_wake_task split: option.split)
  next
    case CancelledWait
    then have st: "st (cores w ov) = CANCELLED_WAIT" using valid valid_phase_iff(7) by blast
    show ?thesis
      using run sim io_handle_callback_cancelled [OF half _ valid] CancelledWait
      by (intro exI [of _ ?t]) (simp add: moves st)
  next
    case Scheduling
    with free show ?thesis by simp
  qed (use run sim io_handle_callback_stale [OF half _ valid] valid_phase_iff [OF valid] in
      \<open>intro exI [of _ ?t]; simp add: moves\<close>)+
qed

text \<open>Steps of other threads during a waiting cancel, seen as runs.\<close>

primrec env_runs ::
  "(nat \<Rightarrow> u32 \<times> usize) \<Rightarrow> bool \<Rightarrow> overlapped \<Rightarrow> (io_world \<Rightarrow> io_world) list \<Rightarrow> io_world \<Rightarrow> race \<Rightarrow> bool" where
  "env_runs outcome skip ov [] w s \<longleftrightarrow> True"
| "env_runs outcome skip ov (e # env) w s \<longleftrightarrow>
     (\<exists>t. race_run outcome skip True s t \<and> simulates O_spin ov (e w) t \<and> env_runs outcome skip ov env (e w) t)"

lemma spin_runs:
  assumes "env_runs outcome skip ov env w s" and "simulates O_spin ov w s"
    and "spin_while (\<lambda>w. is_busy (st (cores w ov))) env w = Some w'"
  shows "\<exists>t. race_run outcome skip True s t \<and> simulates O_out ov w' t"
  using assms
proof (induction env arbitrary: w s)
  case Nil
  then have "\<not> is_busy (st (cores w ov))" "w' = w" by (auto split: if_splits)
  moreover have "race_run outcome skip True s (do_moves outcome skip [M_cancel True] s)"
    by (rule do_moves_run) simp
  ultimately show ?case using Nil.prems(2)
    by (intro exI [of _ "do_moves outcome skip [M_cancel True] s"]) (simp add: simulates_def cancel_move_def)
next
  case (Cons e env)
  show ?case
  proof (cases "is_busy (st (cores w ov))")
    case True
    obtain u where u: "race_run outcome skip True s u" "simulates O_spin ov (e w) u"
      "env_runs outcome skip ov env (e w) u"
      using Cons.prems(1) by auto
    obtain t where "race_run outcome skip True u t" "simulates O_out ov w' t"
      using Cons.IH [OF u(3,2)] Cons.prems(3) True by auto
    with u(1) show ?thesis by (meson rtranclp_trans)
  next
    case False
    moreover have "race_run outcome skip True s (do_moves outcome skip [M_cancel True] s)"
      by (rule do_moves_run) simp
    ultimately show ?thesis using Cons.prems(2,3)
      by (intro exI [of _ "do_moves outcome skip [M_cancel True] s"]) (simp add: simulates_def cancel_move_def)
  qed
qed

lemma cancel_move_cb [simp]: "r_cb (cancel_move wt s) = r_cb s"
  by (simp add: cancel_move_def split: owner_pc.split)

lemma cancel_runs:
  assumes sim: "simulates O_out (half_overlapped half) w s" and valid: "valid_at (half_overlapped half) w"
    and neutral: "core_neutral (half_cancel half (io_hd self) (half_overlapped half) wt)"
    and env: "\<And>w1 s1. wt \<Longrightarrow> simulates O_spin (half_overlapped half) w1 s1 \<Longrightarrow> r_cb s1 = r_cb s \<Longrightarrow>
      st (cores w1 (half_overlapped half)) = CANCELLED_WAIT \<Longrightarrow>
      env_runs outcome skip (half_overlapped half) env w1 s1"
  shows "\<exists>t. race_run outcome skip True s t \<and>
    simulates (if fst (run_state (io_handle_cancel p env self half wt) w) = None then O_spin else O_out)
      (half_overlapped half) (snd (run_state (io_handle_cancel p env self half wt) w)) t"
proof (cases "phase_at (half_overlapped half) w = PendingIo")
  case False
  then show ?thesis using sim by (auto simp: io_handle_cancel_not_pending [OF valid False])
next
  case True
  let ?ov = "half_overlapped half"
  let ?t = "do_moves outcome skip [M_cancel wt, M_cancel wt, M_cancel wt] s"
  have st: "st (cores w ?ov) = PENDING" using True valid valid_phase_iff(3) by blast
  obtain ret w1 where run: "run_state (half_cancel half (io_hd self) ?ov wt) (cancelling_world wt ?ov w) = (ret, w1)"
    by fastforce
  have c: "cores w1 ?ov = (cores w ?ov)\<lparr>st := (if wt then CANCELLED_WAIT else CANCELLED_NOWAIT)\<rparr>"
    using core_neutralD [OF neutral run] by (simp add: cancelling_world_def)
  have t: "race_run outcome skip True s ?t" by (rule do_moves_run) simp
  have at: "simulates (if wt then O_spin else O_out) ?ov w1 ?t"
    using sim st by (simp add: simulates_def cancel_move_def io_state_ops c)
  show ?thesis
  proof (cases "wt \<and> spin_while (\<lambda>w. is_busy (st (cores w ?ov))) env w1 \<noteq> None")
    case True
    then obtain w2 where w2: "spin_while (\<lambda>w. is_busy (st (cores w ?ov))) env w1 = Some w2" and wt by blast
    have "env_runs outcome skip ?ov env w1 ?t"
      using at \<open>wt\<close> by (intro env) (simp_all add: c)
    from spin_runs [OF this _ w2] at \<open>wt\<close> obtain u where
      "race_run outcome skip True ?t u" "simulates O_out ?ov w2 u" by auto
    then show ?thesis
      using t w2 \<open>wt\<close> run by (auto simp: io_handle_cancel_pending [OF valid \<open>phase_at ?ov w = PendingIo\<close>]
          intro: rtranclp_trans)
  next
    case False
    then show ?thesis
      using t at run by (auto simp: io_handle_cancel_pending [OF valid \<open>phase_at ?ov w = PendingIo\<close>])
  qed
qed

text \<open>A waiting cancel during which the completion arrives returns.\<close>

lemma cancel_wait_returns:
  fixes p :: platform and self :: io_handle and half :: io_half and r :: u32 and n :: usize
  defines "ov \<equiv> half_overlapped half"
  defines "cb \<equiv> \<lambda>w. snd (run_state (io_handle_callback p [] self ov r n) w)"
  assumes "valid_at ov w" and "is_half self ov" and "core_neutral (half_cancel half (io_hd self) ov True)"
  shows "fst (run_state (io_handle_cancel p [cb] self half True) w) \<noteq> None"
proof (cases "phase_at ov w = PendingIo")
  case True
  obtain ret w1 where run: "run_state (half_cancel half (io_hd self) ov True) (cancelling_world True ov w) = (ret, w1)"
    by fastforce
  have w1: "st (cores w1 ov) = CANCELLED_WAIT"
    using core_neutralD [OF assms(5) run] by (simp add: cancelling_world_def)
  then have "\<not> is_busy (st (cores (cb w1) ov))"
    using io_handle_callback_cancelled [OF assms(4), of w1 p "[]" r n]
    by (simp add: cb_def is_busy_def valid_state_def)
  then show ?thesis
    using run io_handle_cancel_pending [OF assms(3) [unfolded ov_def] True [unfolded ov_def], of p "[cb]" self True]
    by (simp add: ov_def split: option.split)
qed (use assms(3) in \<open>simp add: io_handle_cancel_not_pending ov_def\<close>)

section \<open>Properties\<close>

text \<open>
  Property C6: the operations of a handle are runs of the atomic steps. When the core of a half is the
  state \<open>s\<close> of the step relation, with no call in progress, whatever completions are in flight, then
  a poll is a run to the core it leaves: it records what it answered for the current operation
  when it takes a result, starts one operation, whose completion is in flight when the poll
  answers \<open>Pending\<close>, when the half was idle, and takes nothing otherwise;
  a cancel that does not wait, or finds nothing pending, is a run. And when the completion of an
  operation \<open>i\<close> is in flight, with the outcome \<open>(r, n)\<close>, its callback is a run that ends that completion,
  and so is a cancel that waits and during which that callback arrives.
\<close>

theorem handle_refines_race:
  fixes p :: platform and self :: io_handle and half :: io_half and w :: io_world and r :: u32 and n :: usize
  defines "ov \<equiv> half_overlapped half"
  defines "cb \<equiv> \<lambda>w. snd (run_state (io_handle_callback p [] self ov r n) w)"
  assumes "simulates O_out ov w s" and "valid_at ov w" and "phase_at ov w \<noteq> Scheduling" and "is_half self ov"
    and "core_neutral (half_schedule half (io_hd self) ov buf)" and "\<forall>wt. core_neutral (half_cancel half (io_hd self) ov wt)"
  shows "(\<exists>t. race_run outcome skip True s t \<and>
      simulates O_out ov (snd (run_state (io_handle_poll p self half k buf) w)) t \<and>
      (case phase_at ov w of
         Complete \<Rightarrow> (\<exists>v. fst (run_state (io_handle_poll p self half k buf) w) = Ready v \<and>
           r_taken t = r_taken s @ [(r_cur s, v)])
       | Idle \<Rightarrow> r_taken t = r_taken s \<and> r_cur t = Suc (r_cur s) \<and>
           (fst (run_state (io_handle_poll p self half k buf) w) = Pending \<longrightarrow> r_cb t (r_cur t) = C_flight)
       | _ \<Rightarrow> r_taken t = r_taken s)) \<and>
    (\<exists>t. race_run outcome skip True s t \<and>
      simulates O_out ov (snd (run_state (io_handle_cancel p env self half False) w)) t) \<and>
    (phase_at ov w \<noteq> PendingIo \<longrightarrow> (\<exists>t. race_run outcome skip True s t \<and>
      simulates O_out ov (snd (run_state (io_handle_cancel p env self half True) w)) t)) \<and>
    (r_cb s i = C_flight \<longrightarrow> outcome i = (r, n) \<longrightarrow>
      (\<exists>t. race_run outcome skip True s t \<and> simulates O_out ov (cb w) t \<and> r_cb t i = C_done \<and> r_taken t = r_taken s) \<and>
      (\<exists>t. race_run outcome skip True s t \<and>
        simulates O_out ov (snd (run_state (io_handle_cancel p [cb] self half True) w)) t))"
proof (intro conjI impI)
  show "\<exists>t. race_run outcome skip True s t \<and>
      simulates O_out ov (snd (run_state (io_handle_poll p self half k buf) w)) t \<and>
      (case phase_at ov w of
         Complete \<Rightarrow> (\<exists>v. fst (run_state (io_handle_poll p self half k buf) w) = Ready v \<and>
           r_taken t = r_taken s @ [(r_cur s, v)])
       | Idle \<Rightarrow> r_taken t = r_taken s \<and> r_cur t = Suc (r_cur s) \<and>
           (fst (run_state (io_handle_poll p self half k buf) w) = Pending \<longrightarrow> r_cb t (r_cur t) = C_flight)
       | _ \<Rightarrow> r_taken t = r_taken s)"
    using poll_runs [OF assms(3,4,7) [unfolded ov_def], of outcome skip True p k] unfolding ov_def .
  have "fst (run_state (io_handle_cancel p env self half False) w) \<noteq> None"
    using assms(4) unfolding ov_def
    by (cases "phase_at (half_overlapped half) w = PendingIo")
      (auto simp: io_handle_cancel_pending io_handle_cancel_not_pending split: prod.split)
  then show "\<exists>t. race_run outcome skip True s t \<and>
      simulates O_out ov (snd (run_state (io_handle_cancel p env self half False) w)) t"
    using cancel_runs [OF assms(3,4) [unfolded ov_def] assms(8) [unfolded ov_def, rule_format], of False outcome skip env p]
    unfolding ov_def by auto
next
  assume "phase_at ov w \<noteq> PendingIo"
  then show "\<exists>t. race_run outcome skip True s t \<and>
      simulates O_out ov (snd (run_state (io_handle_cancel p env self half True) w)) t"
    using assms(3,4) unfolding ov_def by (auto simp: io_handle_cancel_not_pending)
next
  assume flight: "r_cb s i = C_flight" and out: "outcome i = (r, n)"
  show "\<exists>t. race_run outcome skip True s t \<and> simulates O_out ov (cb w) t \<and> r_cb t i = C_done \<and> r_taken t = r_taken s"
    using callback_runs [where outcome = outcome and i = i, OF assms(3,4,6,5) flight out, of skip True p "[]"]
    by (auto simp: cb_def)
  have "fst (run_state (io_handle_cancel p [cb] self half True) w) \<noteq> None"
    using cancel_wait_returns assms(4,6,8) unfolding ov_def cb_def by blast
  moreover have "env_runs outcome skip ov [cb] w1 s1"
    if "simulates O_spin ov w1 s1" "r_cb s1 = r_cb s" "st (cores w1 ov) = CANCELLED_WAIT" for w1 s1
    using callback_runs [where outcome = outcome and i = i, OF that(1) _ assms(6) _ _ out, of skip True p "[]"]
      that(2,3) flight by (auto simp: cb_def valid_state_def)
  ultimately show "\<exists>t. race_run outcome skip True s t \<and>
      simulates O_out ov (snd (run_state (io_handle_cancel p [cb] self half True) w)) t"
    using cancel_runs [OF assms(3,4) [unfolded ov_def] assms(8) [unfolded ov_def, rule_format],
        of True outcome skip "[cb]" p] unfolding ov_def by auto
qed

theorem handle_refines_race_witness:
  "(\<exists>t. race_run (\<lambda>_. (0, 4)) False True race_init t \<and>
     simulates O_out OvRead
       (snd (run_state (io_handle_poll (sample_platform (\<lambda>c. 1)) (sample_io_handle (sample_platform (\<lambda>c. 1)))
          (io_read (sample_io_handle (sample_platform (\<lambda>c. 1)))) 7 \<lparr>buf_len = 1, buf_ptr = 9\<rparr>) idle_world)) t \<and>
     r_taken t = [] \<and> r_cur t = 1) \<and>
   (\<exists>t. race_run (\<lambda>_. (0, 4)) False True (race_init\<lparr>r_word := PENDING, r_cur := 1, r_cb := (\<lambda>_. C_none)(1 := C_flight)\<rparr>) t \<and>
     simulates O_out OvRead
       (snd (run_state (io_handle_callback (sample_platform (\<lambda>c. 1)) [] (sample_io_handle (sample_platform (\<lambda>c. 1))) OvRead 0 4)
          pending_read)) t \<and> r_cb t 1 = C_done)"
proof -
  let ?p = "sample_platform (\<lambda>c. 1)"
  let ?self = "sample_io_handle ?p"
  let ?s = "race_init\<lparr>r_word := PENDING, r_cur := 1, r_cb := (\<lambda>_. C_none)(1 := C_flight)\<rparr>"
  have ov: "half_overlapped (io_read ?self) = OvRead" by simp
  have sim: "simulates O_out OvRead idle_world race_init" "simulates O_out OvRead pending_read ?s"
    by (simp_all add: simulates_def race_init_def io_core_new_def)
  have "core_neutral (half_schedule (io_read ?self) (io_hd ?self) OvRead \<lparr>buf_len = 1, buf_ptr = 9\<rparr>)"
    by (simp add: core_neutral_def)
  moreover have "\<forall>wt. core_neutral (half_cancel (io_read ?self) (io_hd ?self) OvRead wt)" by simp
  ultimately have neutral: "core_neutral (half_schedule (io_read ?self) (io_hd ?self) OvRead \<lparr>buf_len = 1, buf_ptr = 9\<rparr>)"
    "\<forall>wt. core_neutral (half_cancel (io_read ?self) (io_hd ?self) OvRead wt)" by blast+
  have "phase_at OvRead idle_world = Idle" "r_taken race_init = []" "r_cur race_init = 0"
    by (simp_all add: io_core_new_def io_state_new_def race_init_def)
  then have "\<exists>t. race_run (\<lambda>_. (0, 4)) False True race_init t \<and>
     simulates O_out OvRead (snd (run_state (io_handle_poll ?p ?self (io_read ?self) 7 \<lparr>buf_len = 1, buf_ptr = 9\<rparr>) idle_world)) t \<and>
     r_taken t = [] \<and> r_cur t = 1"
    using handle_refines_race [where half = "io_read ?self" and w = idle_world and s = race_init and self = ?self
        and buf = "\<lparr>buf_len = 1, buf_ptr = 9\<rparr>" and i = 1 and outcome = "\<lambda>_. (0, 4)" and r = 0 and n = 4
        and skip = False and p = ?p and k = 7 and env = "[]"] sim(1) neutral
    unfolding ov by (simp add: valid_state_def is_half_def io_core_new_def io_state_new_def) blast
  moreover have "\<exists>t. race_run (\<lambda>_. (0, 4)) False True ?s t \<and>
     simulates O_out OvRead (snd (run_state (io_handle_callback ?p [] ?self OvRead 0 4) pending_read)) t \<and> r_cb t 1 = C_done"
    using handle_refines_race [where half = "io_read ?self" and w = pending_read and s = ?s and self = ?self
        and buf = "\<lparr>buf_len = 1, buf_ptr = 9\<rparr>" and i = 1 and outcome = "\<lambda>_. (0, 4)" and r = 0 and n = 4
        and skip = False and p = ?p and k = 7 and env = "[]"] sim(2) neutral
    unfolding ov by (simp add: valid_state_def is_half_def) blast
  ultimately show ?thesis by blast
qed

end
