(* ===== verification/Std_Net.thy ===== *)
theory Std_Net
  imports Wae_Prelude
begin

text \<open>
  What the crate uses of \<open>std::net\<close>: the parsers behind \<open>str::parse\<close> in \<open>ToSocketAddrs\<close>
  (\<open>src/net/sockaddr/to_socket_addrs.rs\<close>), and the text of an address, which the \<open>Debug\<close>
  impls print. The parsers are those of the current standard library: octets of an IPv4
  address have at most three digits and no leading zero, a scope is accepted after \<open>%\<close>.

  A Rust string is the list of its Unicode scalar values. A parser answers what it has read and
  the rest of the input, and \<open>None\<close> when it fails and leaves the input where it was
  (\<open>read_atomically\<close>). The library parses the bytes of the string; the two agree, since only
  ASCII characters are ever accepted.
\<close>

section \<open>Numbers as text\<close>

type_synonym rstr = "nat list"
type_synonym 'a parser = "rstr \<Rightarrow> ('a \<times> rstr) option"

text \<open>\<open>char::to_digit\<close>, and the digits \<open>{}\<close> and \<open>{:x}\<close> print.\<close>

definition to_digit :: "nat \<Rightarrow> nat \<Rightarrow> nat option" where
  "to_digit radix c =
     (let d = (if 48 \<le> c \<and> c \<le> 57 then c - 48
               else if 97 \<le> c \<and> c \<le> 122 then c - 87
               else if 65 \<le> c \<and> c \<le> 90 then c - 55 else radix)
      in if d < radix then Some d else None)"

definition digit_char :: "nat \<Rightarrow> nat" where
  "digit_char d = (if d < 10 then 48 + d else 87 + d)"

fun digits :: "nat \<Rightarrow> nat \<Rightarrow> rstr" where
  "digits radix n =
     (if n < radix \<or> radix < 2 then [digit_char n]
      else digits radix (n div radix) @ [digit_char (n mod radix)])"

declare digits.simps [simp del]

section \<open>The parser\<close>

fun read_given_char :: "nat \<Rightarrow> unit parser" where
  "read_given_char target (c # cs) = (if c = target then Some ((), cs) else None)"
| "read_given_char target [] = None"

definition read_separator :: "nat \<Rightarrow> nat \<Rightarrow> 'a parser \<Rightarrow> 'a parser" where
  "read_separator sep index inner s =
     (if index > 0
      then (case read_given_char sep s of None \<Rightarrow> None | Some (_, s) \<Rightarrow> inner s)
      else inner s)"

text \<open>
  The loop of \<open>read_number\<close>: the number read and the count of its digits. With a bound on the
  digits it fails on one digit too many; without, on a number above \<open>largest\<close>, the greatest of
  its type.
\<close>

fun read_digits :: "nat \<Rightarrow> nat option \<Rightarrow> nat \<Rightarrow> nat \<Rightarrow> nat \<Rightarrow> (nat \<times> nat) parser" where
  "read_digits radix max_digits largest result digit_count [] = Some ((result, digit_count), [])"
| "read_digits radix max_digits largest result digit_count (c # cs) =
     (case to_digit radix c of
        None \<Rightarrow> Some ((result, digit_count), c # cs)
      | Some d \<Rightarrow>
          (case max_digits of
             Some m \<Rightarrow>
               if digit_count + 1 > m then None
               else read_digits radix max_digits largest (result * radix + d) (digit_count + 1) cs
           | None \<Rightarrow>
               if result * radix + d > largest then None
               else read_digits radix max_digits largest (result * radix + d) (digit_count + 1) cs))"

definition read_number :: "nat \<Rightarrow> nat option \<Rightarrow> bool \<Rightarrow> nat \<Rightarrow> nat parser" where
  "read_number radix max_digits allow_zero_prefix largest s =
     (let has_leading_zero = (s \<noteq> [] \<and> hd s = 48) in
      case read_digits radix max_digits largest 0 0 s of
        None \<Rightarrow> None
      | Some ((result, digit_count), s) \<Rightarrow>
          if digit_count = 0 then None
          else if \<not> allow_zero_prefix \<and> has_leading_zero \<and> digit_count > 1 then None
          else if result > largest then None
          else Some (result, s))"

text \<open>46, 58, 37, 91 and 93 are the period, the colon, the percent sign and the brackets.\<close>

fun read_octets :: "nat \<Rightarrow> nat \<Rightarrow> nat list parser" where
  "read_octets i 0 s = Some ([], s)"
| "read_octets i (Suc n) s =
     (case read_separator 46 i (read_number 10 (Some 3) False 255) s of
        None \<Rightarrow> None
      | Some (octet, s) \<Rightarrow>
          (case read_octets (i + 1) n s of
             None \<Rightarrow> None
           | Some (octets, s) \<Rightarrow> Some (octet # octets, s)))"

definition read_ipv4_addr :: "nat list parser" where
  "read_ipv4_addr = read_octets 0 4"

text \<open>
  \<open>read_groups\<close> fills \<open>groups\<close> from the index \<open>i\<close> on, with \<open>n\<close> slots left; it answers the groups
  read, whether the last two are an embedded IPv4 address, and the rest of the input.
\<close>

fun read_groups :: "nat \<Rightarrow> nat \<Rightarrow> rstr \<Rightarrow> nat list \<times> bool \<times> rstr" where
  "read_groups i 0 s = ([], False, s)"
| "read_groups i (Suc n) s =
     (case (if n > 0 then read_separator 58 i read_ipv4_addr s else None) of
        Some (v4, s) \<Rightarrow> ([v4 ! 0 * 256 + v4 ! 1, v4 ! 2 * 256 + v4 ! 3], True, s)
      | None \<Rightarrow>
          (case read_separator 58 i (read_number 16 (Some 4) True 65535) s of
             Some (g, s) \<Rightarrow>
               (case read_groups (i + 1) n s of (gs, ipv4, s) \<Rightarrow> (g # gs, ipv4, s))
           | None \<Rightarrow> ([], False, s)))"

definition read_ipv6_addr :: "nat list parser" where
  "read_ipv6_addr s =
     (case read_groups 0 8 s of
        (head, head_ipv4, s) \<Rightarrow>
          if length head = 8 then Some (head, s)
          else if head_ipv4 then None
          else (case read_given_char 58 s of
             None \<Rightarrow> None
           | Some (_, s) \<Rightarrow>
               (case read_given_char 58 s of
                  None \<Rightarrow> None
                | Some (_, s) \<Rightarrow>
                    (case read_groups 0 (8 - (length head + 1)) s of
                       (tail, _, s) \<Rightarrow>
                         Some (head @ replicate (8 - length tail - length head) 0 @ tail, s)))))"

text \<open>\<open>Ipv4Addr::from\<close> of four octets and \<open>Ipv6Addr::from\<close> of eight groups, big endian.\<close>

definition of_digits :: "nat \<Rightarrow> nat list \<Rightarrow> nat" where
  "of_digits base ds = foldl (\<lambda>n d. n * base + d) 0 ds"

definition ipv4_from :: "nat list \<Rightarrow> u32" where
  "ipv4_from octets = of_nat (of_digits 256 octets)"

definition ipv6_from :: "nat list \<Rightarrow> 128 word" where
  "ipv6_from groups = of_nat (of_digits 65536 groups)"

definition read_ip_addr :: "ip_addr parser" where
  "read_ip_addr s =
     (case read_ipv4_addr s of
        Some (v4, s) \<Rightarrow> Some (IpV4 (ipv4_from v4), s)
      | None \<Rightarrow> map_option (\<lambda>(v6, s). (IpV6 (ipv6_from v6), s)) (read_ipv6_addr s))"

definition read_port :: "nat parser" where
  "read_port s =
     (case read_given_char 58 s of
        None \<Rightarrow> None
      | Some (_, s) \<Rightarrow> read_number 10 None True 65535 s)"

definition read_scope_id :: "nat parser" where
  "read_scope_id s =
     (case read_given_char 37 s of
        None \<Rightarrow> None
      | Some (_, s) \<Rightarrow> read_number 10 None True 4294967295 s)"

definition read_socket_addr_v4 :: "socket_addr_v4 parser" where
  "read_socket_addr_v4 s =
     (case read_ipv4_addr s of
        None \<Rightarrow> None
      | Some (ip, s) \<Rightarrow>
          (case read_port s of
             None \<Rightarrow> None
           | Some (port, s) \<Rightarrow> Some (SocketAddrV4 (ipv4_from ip) (of_nat port), s)))"

definition read_socket_addr_v6 :: "socket_addr_v6 parser" where
  "read_socket_addr_v6 s =
     (case read_given_char 91 s of
        None \<Rightarrow> None
      | Some (_, s) \<Rightarrow>
          (case read_ipv6_addr s of
             None \<Rightarrow> None
           | Some (ip, s) \<Rightarrow>
               (let (scope_id, s) = (case read_scope_id s of None \<Rightarrow> (0, s) | Some x \<Rightarrow> x) in
                case read_given_char 93 s of
                  None \<Rightarrow> None
                | Some (_, s) \<Rightarrow>
                    (case read_port s of
                       None \<Rightarrow> None
                     | Some (port, s) \<Rightarrow>
                         Some (SocketAddrV6 (ipv6_from ip) (of_nat port) 0 (of_nat scope_id), s)))))"

definition read_socket_addr :: "socket_addr parser" where
  "read_socket_addr s =
     (case read_socket_addr_v4 s of
        Some (a, s) \<Rightarrow> Some (V4 a, s)
      | None \<Rightarrow> map_option (\<lambda>(a, s). (V6 a, s)) (read_socket_addr_v6 s))"

text \<open>\<open>parse_with\<close>: the whole input has to be read.\<close>

definition parse_with :: "'a parser \<Rightarrow> rstr \<Rightarrow> 'a option" where
  "parse_with inner s = (case inner s of Some (x, []) \<Rightarrow> Some x | _ \<Rightarrow> None)"

definition parse_ip :: "rstr \<Rightarrow> ip_addr option" where
  "parse_ip = parse_with read_ip_addr"

definition parse_addr :: "rstr \<Rightarrow> socket_addr option" where
  "parse_addr = parse_with read_socket_addr"

section \<open>Text of an address\<close>

text \<open>The digits of a number to a base, most significant first, \<open>k\<close> of them.\<close>

primrec to_digits :: "nat \<Rightarrow> nat \<Rightarrow> nat \<Rightarrow> nat list" where
  "to_digits base 0 n = []"
| "to_digits base (Suc k) n = to_digits base k (n div base) @ [n mod base]"

definition ipv4_octets :: "u32 \<Rightarrow> nat list" where
  "ipv4_octets ip = to_digits 256 4 (unat ip)"

definition ipv6_segments :: "128 word \<Rightarrow> nat list" where
  "ipv6_segments ip = to_digits 65536 8 (unat ip)"

fun join :: "nat \<Rightarrow> rstr list \<Rightarrow> rstr" where
  "join sep [] = []"
| "join sep [x] = x"
| "join sep (x # y # xs) = x @ sep # join sep (y # xs)"

definition ipv4_text :: "nat list \<Rightarrow> rstr" where
  "ipv4_text octets = join 46 (map (digits 10) octets)"

text \<open>
  The longest run of zero groups, the first of several: \<open>(start, len)\<close> of the longest and of the
  current run.
\<close>

fun zero_span :: "nat \<Rightarrow> nat \<times> nat \<Rightarrow> nat \<times> nat \<Rightarrow> nat list \<Rightarrow> nat \<times> nat" where
  "zero_span i longest cur [] = longest"
| "zero_span i longest cur (g # gs) =
     (if g = 0 then
        (let start = (if snd cur = 0 then i else fst cur); cur = (start, snd cur + 1);
             longest = (if snd cur > snd longest then cur else longest)
         in zero_span (i + 1) longest cur gs)
      else zero_span (i + 1) longest (0, 0) gs)"

text \<open>\<open>to_ipv4_mapped\<close>: the groups of \<open>::ffff:a.b.c.d\<close>.\<close>

definition ipv4_mapped :: "nat list \<Rightarrow> bool" where
  "ipv4_mapped gs \<longleftrightarrow> take 6 gs = [0, 0, 0, 0, 0, 65535]"

definition groups_text :: "nat list \<Rightarrow> rstr" where
  "groups_text gs = join 58 (map (digits 16) gs)"

definition ipv6_text :: "nat list \<Rightarrow> rstr" where
  "ipv6_text gs =
     (if ipv4_mapped gs then
        [58, 58, 102, 102, 102, 102, 58] @
          ipv4_text [gs ! 6 div 256, gs ! 6 mod 256, gs ! 7 div 256, gs ! 7 mod 256]
      else
        (let (start, len) = zero_span 0 (0, 0) (0, 0) gs in
         if len > 1 then groups_text (take start gs) @ [58, 58] @ groups_text (drop (start + len) gs)
         else groups_text gs))"

fun ip_addr_text :: "ip_addr \<Rightarrow> rstr" where
  "ip_addr_text (IpV4 ip) = ipv4_text (ipv4_octets ip)"
| "ip_addr_text (IpV6 ip) = ipv6_text (ipv6_segments ip)"

text \<open>The flow information of an IPv6 address is not printed.\<close>

fun socket_addr_text :: "socket_addr \<Rightarrow> rstr" where
  "socket_addr_text (V4 (SocketAddrV4 ip port)) =
     ip_addr_text (IpV4 ip) @ 58 # digits 10 (unat port)"
| "socket_addr_text (V6 (SocketAddrV6 ip port flowinfo scope_id)) =
     91 # ip_addr_text (IpV6 ip) @
     (if scope_id = 0 then [] else 37 # digits 10 (unat scope_id)) @
     93 # 58 # digits 10 (unat port)"


section \<open>Reading back a number\<close>

lemma to_digit_char: "d < radix \<Longrightarrow> radix \<le> 16 \<Longrightarrow> to_digit radix (digit_char d) = Some d"
  by (auto simp: to_digit_def digit_char_def Let_def)

lemma to_digit_less: "to_digit radix c = Some d \<Longrightarrow> d < radix"
  by (auto simp: to_digit_def Let_def split: if_splits)

lemma digits_small: "n < radix \<Longrightarrow> digits radix n = [digit_char n]"
  by (simp add: digits.simps)

lemma digits_large:
  "\<not> n < radix \<Longrightarrow> 2 \<le> radix \<Longrightarrow> digits radix n = digits radix (n div radix) @ [digit_char (n mod radix)]"
  by (simp add: digits.simps [of radix n])

text \<open>The characters of a number: its digits to the radix.\<close>

lemma digits_chars:
  assumes "2 \<le> radix"
  shows "\<exists>ds. digits radix n = map digit_char ds \<and> set ds \<subseteq> {..<radix} \<and> ds \<noteq> [] \<and>
    of_digits radix ds = n \<and> (n \<noteq> 0 \<longrightarrow> hd ds \<noteq> 0) \<and> (n = 0 \<longrightarrow> length ds = 1)"
proof (induction n rule: less_induct)
  case (less n)
  show ?case
  proof (cases "n < radix")
    case True
    then show ?thesis by (intro exI [of _ "[n]"]) (simp add: digits_small of_digits_def)
  next
    case False
    then have "n div radix < n" "n div radix \<noteq> 0" using assms by (auto simp: div_eq_0_iff)
    from less [OF this(1)] this(2) obtain ds where
      "digits radix (n div radix) = map digit_char ds" "set ds \<subseteq> {..<radix}" "ds \<noteq> []"
      "of_digits radix ds = n div radix" "hd ds \<noteq> 0" by blast
    then show ?thesis using False assms
      by (intro exI [of _ "ds @ [n mod radix]"]) (auto simp: digits_large of_digits_def)
  qed
qed

lemma of_digits_append: "of_digits base (ds @ [d]) = of_digits base ds * base + d"
  by (simp add: of_digits_def)

lemma foldl_ge:
  fixes base r :: nat
  assumes "0 < base"
  shows "r \<le> foldl (\<lambda>n d. n * base + d) r ds"
proof (induction ds arbitrary: r)
  case (Cons d ds)
  have "r \<le> r * base + d" using assms by (simp add: trans_le_add1)
  also have "\<dots> \<le> foldl (\<lambda>n d. n * base + d) (r * base + d) ds" by (rule Cons.IH)
  finally show ?case by simp
qed simp

lemma length_digits_le:
  assumes "2 \<le> radix" and "ds \<noteq> []" and "hd ds \<noteq> 0" and "of_digits radix ds < radix ^ k"
  shows "length ds \<le> k"
proof -
  have "radix ^ (length ds - 1) \<le> of_digits radix ds"
    using assms(2,3)
  proof (induction ds rule: rev_induct)
    case (snoc d ds)
    show ?case
    proof (cases "ds = []")
      case False
      then have "radix ^ (length ds - 1) * radix \<le> of_digits radix ds * radix"
        using snoc by (intro mult_right_mono) auto
      moreover have "radix ^ length ds = radix ^ (length ds - 1) * radix"
        using False by (metis Suc_pred' length_greater_0_conv power_Suc2)
      ultimately show ?thesis unfolding of_digits_append by (simp add: trans_le_add1)
    qed (use snoc in \<open>simp add: of_digits_def\<close>)
  qed simp
  then have "radix ^ (length ds - 1) < radix ^ k" using assms(4) by linarith
  then have "length ds - 1 < k" using assms(1) by (simp add: power_strict_increasing_iff)
  then show ?thesis by simp
qed

text \<open>What stops the reader of a number.\<close>

definition stops :: "nat \<Rightarrow> rstr \<Rightarrow> bool" where
  "stops radix s \<longleftrightarrow> s = [] \<or> to_digit radix (hd s) = None"

lemma read_digits_stops: "stops radix s \<Longrightarrow> read_digits radix mx t r c s = Some ((r, c), s)"
  by (cases s) (auto simp: stops_def)

lemma read_digits_chars:
  assumes "set ds \<subseteq> {..<radix}" and "radix \<le> 16" and "2 \<le> radix" and "stops radix s"
    and "case mx of Some m \<Rightarrow> c + length ds \<le> m | None \<Rightarrow> foldl (\<lambda>n d. n * radix + d) r ds \<le> t"
  shows "read_digits radix mx t r c (map digit_char ds @ s) =
    Some ((foldl (\<lambda>n d. n * radix + d) r ds, c + length ds), s)"
  using assms
proof (induction ds arbitrary: r c)
  case (Cons d ds)
  have d: "to_digit radix (digit_char d) = Some d" using Cons.prems by (simp add: to_digit_char)
  have "r * radix + d \<le> foldl (\<lambda>n d. n * radix + d) (r * radix + d) ds"
    using Cons.prems(3) by (intro foldl_ge) simp
  then show ?case using Cons d by (auto simp: split: option.splits)
qed (simp add: read_digits_stops)

text \<open>A printed number is read back, whatever follows it, as long as that is no digit.\<close>

lemma read_number_digits:
  assumes "2 \<le> radix" and "radix \<le> 16" and "stops radix s" and "n \<le> t"
    and "case mx of Some m \<Rightarrow> 0 < m \<and> n < radix ^ m | None \<Rightarrow> True"
  shows "read_number radix mx zeros t (digits radix n @ s) = Some (n, s)"
proof -
  obtain ds where ds: "digits radix n = map digit_char ds" "set ds \<subseteq> {..<radix}" "ds \<noteq> []"
    "of_digits radix ds = n" "n \<noteq> 0 \<Longrightarrow> hd ds \<noteq> 0" "n = 0 \<Longrightarrow> length ds = 1"
    using digits_chars [OF assms(1), of n] by metis
  have len: "length ds \<le> m" if "mx = Some m" for m
    using that assms(1,5) ds length_digits_le [OF assms(1) ds(3), of m] by (cases "n = 0") auto
  have val: "foldl (\<lambda>n d. n * radix + d) 0 ds = n" using ds(4) by (simp add: of_digits_def)
  have "read_digits radix mx t 0 0 (map digit_char ds @ s) =
      Some ((foldl (\<lambda>n d. n * radix + d) 0 ds, 0 + length ds), s)"
    by (rule read_digits_chars [OF ds(2) assms(2,1,3)])
      (use len val assms(4) in \<open>simp split: option.split\<close>)
  then have run: "read_digits radix mx t 0 0 (digits radix n @ s) = Some ((n, length ds), s)"
    by (simp add: ds(1) val)
  have "hd ds < radix" using ds(2,3) hd_in_set by fastforce
  then have "hd (digits radix n @ s) \<noteq> 48" if "length ds > 1"
    using that ds(1,3,5,6) assms(2) by (cases ds) (auto simp: digit_char_def split: if_splits)
  then show ?thesis using run ds(3) assms(4) by (auto simp: read_number_def Let_def)
qed

lemma read_number_stops: "stops radix s \<Longrightarrow> read_number radix mx zeros t s = None"
  by (simp add: read_number_def read_digits_stops Let_def)

text \<open>Groups and octets are the digits of the address.\<close>

lemma of_to_digits: "of_digits base (to_digits base k n) = n mod base ^ k"
proof (induction k arbitrary: n)
  case (Suc k)
  have "n div base mod base ^ k * base + n mod base = n mod (base * base ^ k)"
    by (simp add: mod_mult2_eq mult.commute)
  then show ?case using Suc by (simp add: of_digits_append)
qed (simp add: of_digits_def)

lemma length_to_digits [simp]: "length (to_digits base k n) = k"
  by (induction k arbitrary: n) auto

lemma to_digits_less: "0 < base \<Longrightarrow> d \<in> set (to_digits base k n) \<Longrightarrow> d < base"
  by (induction k arbitrary: n) auto

lemma ipv4_from_octets: "ipv4_from (ipv4_octets ip) = ip"
proof -
  have "unat ip mod 256 ^ 4 = unat ip" using unsigned_less [of ip, where 'a = nat] by simp
  then show ?thesis by (simp add: ipv4_from_def ipv4_octets_def of_to_digits)
qed

lemma ipv6_from_segments: "ipv6_from (ipv6_segments ip) = ip"
proof -
  have "unat ip mod 65536 ^ 8 = unat ip" using unsigned_less [of ip, where 'a = nat] by simp
  then show ?thesis by (simp add: ipv6_from_def ipv6_segments_def of_to_digits)
qed

section \<open>Reading back an address\<close>

definition sep_all :: "nat \<Rightarrow> rstr list \<Rightarrow> rstr" where
  "sep_all sep xs = concat (map (Cons sep) xs)"

lemma sep_all_simps [simp]: "sep_all sep [] = []" "sep_all sep (x # xs) = sep # x @ sep_all sep xs"
  by (simp_all add: sep_all_def)

lemma join_Cons: "join sep (x # xs) = x @ sep_all sep xs"
  by (induction xs arbitrary: x) auto

lemma stops_simps [simp]:
  "stops radix []" "stops 10 (46 # s)" "stops 10 (58 # s)" "stops 16 (58 # s)" "stops 16 (46 # s)"
  "stops 10 (37 # s)" "stops 16 (37 # s)" "stops 10 (93 # s)" "stops 16 (93 # s)" "stops 10 (91 # s)"
  by (simp_all add: stops_def to_digit_def)

lemma stops_16_10: "stops 16 s \<Longrightarrow> stops 10 s"
  by (auto simp: stops_def to_digit_def Let_def split: if_splits)

lemma stops_sep_all: "stops radix s \<Longrightarrow> stops radix [sep] \<Longrightarrow> stops radix (sep_all sep xs @ s)"
  by (cases xs) (auto simp: stops_def)

lemma read_octets_rest:
  assumes "\<forall>o1 \<in> set os. o1 < 256" and "stops 10 s" and "0 < i"
  shows "read_octets i (length os) (sep_all 46 (map (digits 10) os) @ s) = Some (os, s)"
  using assms
proof (induction os arbitrary: i)
  case (Cons x os)
  let ?s = "sep_all 46 (map (digits 10) os) @ s"
  have "stops 10 ?s" using Cons.prems(2) by (simp add: stops_sep_all)
  then have "read_number 10 (Some 3) False 255 (digits 10 x @ ?s) = Some (x, ?s)"
    using Cons.prems(1) by (intro read_number_digits) auto
  then show ?case using Cons by (simp add: read_separator_def)
qed simp

lemma read_ipv4_addr_eq:
  "read_ipv4_addr s =
     (case read_number 10 (Some 3) False 255 s of
        None \<Rightarrow> None
      | Some (octet, s) \<Rightarrow> map_option (\<lambda>(octets, s). (octet # octets, s)) (read_octets 1 3 s))"
proof -
  have "(4 :: nat) = Suc 3" by simp
  then show ?thesis
    unfolding read_ipv4_addr_def by (auto simp only: read_octets.simps read_separator_def split: option.split) simp_all
qed

lemma read_ipv4_addr_text:
  assumes "\<forall>o1 \<in> set os. o1 < 256" and "length os = 4" and "stops 10 s"
  shows "read_ipv4_addr (ipv4_text os @ s) = Some (os, s)"
proof -
  obtain x xs where os: "os = x # xs" using assms(2) by (cases os) auto
  let ?s = "sep_all 46 (map (digits 10) xs) @ s"
  have "stops 10 ?s" using assms(3) by (simp add: stops_sep_all)
  then have "read_number 10 (Some 3) False 255 (digits 10 x @ ?s) = Some (x, ?s)"
    using assms(1) os by (intro read_number_digits) auto
  moreover have "read_octets 1 (length xs) ?s = Some (xs, s)"
    using assms os by (intro read_octets_rest) auto
  ultimately show ?thesis
    using assms(2) os by (simp add: read_ipv4_addr_eq ipv4_text_def join_Cons)
qed

text \<open>Without a period, and before anything that is no digit, no IPv4 address is read.\<close>

lemma read_digits_rest: "read_digits radix mx t r c s = Some (x, s') \<Longrightarrow> set s' \<subseteq> set s"
  by (induction radix mx t r c s rule: read_digits.induct) (auto split: option.splits if_splits)

lemma read_ipv4_addr_no_period:
  assumes "46 \<notin> set s"
  shows "read_ipv4_addr s = None"
proof -
  have "read_octets (Suc 0) 3 s' = None" if num: "read_number 10 (Some 3) False 255 s = Some (x, s')" for x s'
  proof -
    obtain y where "read_digits 10 (Some 3) 255 0 0 s = Some (y, s')"
      using num by (auto simp: read_number_def Let_def split: option.splits if_splits)
    then have "set s' \<subseteq> set s" by (rule read_digits_rest)
    then have "read_given_char 46 s' = None" using assms by (cases s') auto
    then show ?thesis by (simp add: numeral_3_eq_3 read_separator_def)
  qed
  then show ?thesis by (auto simp: read_ipv4_addr_eq split: option.split)
qed

lemma read_ipv4_addr_stops: "stops 10 s \<Longrightarrow> read_ipv4_addr s = None"
  by (simp add: read_ipv4_addr_eq read_number_stops)

text \<open>Where the reader of groups ends: at two colons, or at no colon at all.\<close>

definition groups_end :: "rstr \<Rightarrow> bool" where
  "groups_end s \<longleftrightarrow> read_given_char 58 s = None \<or> (\<exists>t. s = 58 # 58 # t)"

lemma groups_end_separator:
  assumes "groups_end s" and "0 < i"
  shows "read_separator 58 i read_ipv4_addr s = None"
    and "read_separator 58 i (read_number 16 mx zeros t) s = None"
  using assms
  by (auto simp: groups_end_def read_separator_def read_ipv4_addr_stops read_number_stops split: option.splits)

lemma digits_no_period: "2 \<le> radix \<Longrightarrow> 46 \<notin> set (digits radix n)"
  using digits_chars [of radix n] by (auto simp: digit_char_def split: if_splits)

lemma sep_all_no_period: "46 \<notin> set (sep_all 58 (map (digits 16) gs))"
  by (induction gs) (auto simp: digits_no_period)

lemma read_group:
  assumes "g < 65536" and "stops 16 s"
  shows "read_number 16 (Some 4) True 65535 (digits 16 g @ s) = Some (g, s)"
  using assms by (intro read_number_digits) auto

lemma read_groups_rest:
  assumes "\<forall>g \<in> set gs. g < 65536" and "length gs = n \<or> length gs < n \<and> groups_end s"
    and "stops 16 s" and "46 \<notin> set s" and "0 < i"
  shows "read_groups i n (sep_all 58 (map (digits 16) gs) @ s) = (gs, False, s)"
  using assms
proof (induction gs arbitrary: i n)
  case Nil
  then show ?case by (cases n) (auto simp: groups_end_separator)
next
  case (Cons g gs)
  then obtain m where n: "n = Suc m" by (cases n) auto
  let ?s = "sep_all 58 (map (digits 16) gs) @ s"
  have "stops 16 ?s" using Cons.prems(3) by (simp add: stops_sep_all)
  then have "read_number 16 (Some 4) True 65535 (digits 16 g @ ?s) = Some (g, ?s)"
    using Cons.prems(1) by (intro read_group) auto
  moreover have "read_ipv4_addr (digits 16 g @ ?s) = None"
    using Cons.prems(4) by (intro read_ipv4_addr_no_period) (simp add: digits_no_period sep_all_no_period)
  moreover have "read_groups (i + 1) m ?s = (gs, False, s)"
    using Cons.prems n by (intro Cons.IH) auto
  ultimately show ?case using Cons.prems(5) by (cases m) (simp_all add: n read_separator_def)
qed

lemma read_groups_text:
  assumes "\<forall>g \<in> set gs. g < 65536" and "length gs = n \<or> length gs < n \<and> groups_end s"
    and "stops 16 s" and "46 \<notin> set s"
  shows "read_groups 0 n (groups_text gs @ s) = (gs, False, s)"
proof (cases gs)
  case Nil
  then show ?thesis using assms(3)
    by (cases n) (auto simp: groups_text_def read_separator_def read_ipv4_addr_stops stops_16_10 read_number_stops)
next
  case (Cons g gs')
  then obtain m where n: "n = Suc m" using assms(2) by (cases n) auto
  let ?s = "sep_all 58 (map (digits 16) gs') @ s"
  have "stops 16 ?s" using assms(3) by (simp add: stops_sep_all)
  then have "read_number 16 (Some 4) True 65535 (digits 16 g @ ?s) = Some (g, ?s)"
    using assms(1) Cons by (intro read_group) auto
  moreover have "read_ipv4_addr (digits 16 g @ ?s) = None"
    using assms(4) by (intro read_ipv4_addr_no_period) (simp add: digits_no_period sep_all_no_period)
  moreover have "read_groups 1 m ?s = (gs', False, s)"
    using assms Cons n by (intro read_groups_rest) auto
  ultimately show ?thesis by (cases m) (simp_all add: Cons n groups_text_def join_Cons read_separator_def)
qed

text \<open>The run of zeros that is left out is one.\<close>

definition zeros_at :: "nat list \<Rightarrow> nat \<times> nat \<Rightarrow> bool" where
  "zeros_at gs sp \<longleftrightarrow> fst sp + snd sp \<le> length gs \<and> (\<forall>j. fst sp \<le> j \<and> j < fst sp + snd sp \<longrightarrow> gs ! j = 0)"

lemma zeros_at_append: "zeros_at xs sp \<Longrightarrow> zeros_at (xs @ ys) sp"
  by (auto simp: zeros_at_def nth_append)

lemma zero_span_zeros:
  assumes "zeros_at (pre @ gs) longest" and "snd cur = 0 \<or> zeros_at pre cur \<and> fst cur + snd cur = length pre"
  shows "zeros_at (pre @ gs) (zero_span (length pre) longest cur gs)"
  using assms
proof (induction gs arbitrary: pre longest cur)
  case (Cons g gs)
  show ?case
  proof (cases "g = 0")
    case True
    let ?cur = "(if snd cur = 0 then length pre else fst cur, snd cur + 1)"
    let ?longest = "if snd ?cur > snd longest then ?cur else longest"
    have cur: "zeros_at (pre @ [g]) ?cur \<and> fst ?cur + snd ?cur = length (pre @ [g])"
      using Cons.prems(2) True by (auto simp: zeros_at_def nth_append)
    then have "zeros_at ((pre @ [g]) @ gs) ?cur" by (blast intro: zeros_at_append)
    then have "zeros_at ((pre @ [g]) @ gs) ?longest" using Cons.prems(1) by simp
    from Cons.IH [OF this disjI2 [OF cur]] True show ?thesis by (simp add: Let_def split: if_splits)
  next
    case False
    then show ?thesis using Cons.IH [of "pre @ [g]" longest "(0, 0)"] Cons.prems(1) by simp
  qed
qed simp

lemma zeros_at_split:
  assumes "zeros_at gs (start, len)"
  shows "gs = take start gs @ replicate len 0 @ drop (start + len) gs"
proof -
  have len: "start + len \<le> length gs" using assms by (simp add: zeros_at_def)
  have "take len (drop start gs) = replicate len 0"
    using assms by (intro nth_equalityI) (auto simp: zeros_at_def)
  then show ?thesis
    using append_take_drop_id [of start gs] append_take_drop_id [of len "drop start gs"] len
    by (metis add.commute drop_drop)
qed

lemma read_ipv6_addr_groups:
  assumes "\<forall>g \<in> set (head @ tail). g < 65536" and "length head + length tail < 8"
    and "groups_end s" and "stops 16 s" and "46 \<notin> set s"
  shows "read_ipv6_addr (groups_text head @ 58 # 58 # groups_text tail @ s) =
    Some (head @ replicate (8 - length tail - length head) 0 @ tail, s)"
proof -
  have nop: "46 \<notin> set (groups_text tail)"
    by (cases tail) (simp_all add: groups_text_def join_Cons digits_no_period sep_all_no_period)
  let ?s = "58 # 58 # groups_text tail @ s"
  have "read_groups 0 8 (groups_text head @ ?s) = (head, False, ?s)"
    using assms nop by (intro read_groups_text) (auto simp: groups_end_def)
  moreover have "read_groups 0 (8 - (length head + 1)) (groups_text tail @ s) = (tail, False, s)"
    using assms by (intro read_groups_text) auto
  ultimately show ?thesis using assms(2) by (simp add: read_ipv6_addr_def)
qed

lemma digits_65535: "digits 16 65535 = [102, 102, 102, 102]"
  by (simp add: digits.simps digit_char_def)

lemma read_ipv6_addr_mapped:
  assumes "\<forall>o1 \<in> set [a, b, c, d]. o1 < 256" and "stops 10 s"
  shows "read_ipv6_addr ([58, 58, 102, 102, 102, 102, 58] @ ipv4_text [a, b, c, d] @ s) =
    Some ([0, 0, 0, 0, 0, 65535, a * 256 + b, c * 256 + d], s)"
proof -
  let ?t = "58 # ipv4_text [a, b, c, d] @ s"
  have v4: "read_ipv4_addr (ipv4_text [a, b, c, d] @ s) = Some ([a, b, c, d], s)"
    using assms by (intro read_ipv4_addr_text) auto
  have "read_number 16 (Some 4) True 65535 (digits 16 65535 @ ?t) = Some (65535, ?t)"
    by (intro read_group) simp_all
  then have "read_number 16 (Some 4) True 65535 (102 # 102 # 102 # 102 # ?t) = Some (65535, ?t)"
    by (simp add: digits_65535)
  moreover have "read_ipv4_addr (102 # 102 # 102 # 102 # ?t) = None"
    by (intro read_ipv4_addr_stops) (simp add: stops_def to_digit_def)
  moreover have "(7 :: nat) = Suc (Suc 5)" by simp
  ultimately have "read_groups 0 7 (102 # 102 # 102 # 102 # ?t) =
      ([65535, a * 256 + b, c * 256 + d], True, s)"
    using v4 by (simp only: read_groups.simps) (simp add: read_separator_def)
  moreover have "read_groups 0 8 (groups_text [] @ 58 # 58 # 102 # 102 # 102 # 102 # ?t) =
      ([], False, 58 # 58 # 102 # 102 # 102 # 102 # ?t)"
  proof -
    have "read_ipv4_addr (58 # u) = None" "read_number 16 (Some 4) True 65535 (58 # u) = None" for u
      by (simp_all add: read_ipv4_addr_stops read_number_stops)
    moreover have "(8 :: nat) = Suc 7" by simp
    ultimately show ?thesis by (simp only: read_groups.simps) (simp add: read_separator_def groups_text_def)
  qed
  moreover have "replicate 5 (0 :: nat) = [0, 0, 0, 0, 0]" by (simp add: numeral_eq_Suc)
  ultimately show ?thesis by (simp add: read_ipv6_addr_def groups_text_def)
qed

text \<open>An IPv6 address is read back, in every form it is printed in.\<close>

lemma read_ipv6_addr_text:
  assumes "\<forall>g \<in> set gs. g < 65536" and "length gs = 8"
    and "groups_end s" and "stops 16 s" and "46 \<notin> set s"
  shows "read_ipv6_addr (ipv6_text gs @ s) = Some (gs, s)"
proof (cases "ipv4_mapped gs")
  case True
  have "drop 6 gs = [gs ! 6, gs ! 7]"
    using assms(2) Cons_nth_drop_Suc [of 6 gs] Cons_nth_drop_Suc [of 7 gs] by simp
  then have gs: "gs = [0, 0, 0, 0, 0, 65535, gs ! 6, gs ! 7]"
    using True append_take_drop_id [of 6 gs] unfolding ipv4_mapped_def by simp
  have "gs ! 6 < 65536" "gs ! 7 < 65536" using assms(1,2) nth_mem by auto
  then have "read_ipv6_addr (ipv6_text gs @ s) =
      Some ([0, 0, 0, 0, 0, 65535, gs ! 6 div 256 * 256 + gs ! 6 mod 256, gs ! 7 div 256 * 256 + gs ! 7 mod 256], s)"
    unfolding ipv6_text_def if_P [OF True] append_assoc
    by (intro read_ipv6_addr_mapped) (auto simp: stops_16_10 assms(4) div_less_iff_less_mult)
  then show ?thesis using gs by simp
next
  case False
  obtain start len where span: "zero_span 0 (0, 0) (0, 0) gs = (start, len)" by fastforce
  have zeros: "zeros_at gs (start, len)"
    using zero_span_zeros [of "[]" gs "(0, 0)" "(0, 0)"] span by (simp add: zeros_at_def)
  show ?thesis
  proof (cases "len > 1")
    case True
    let ?head = "take start gs" and ?tail = "drop (start + len) gs"
    have len: "start + len \<le> 8" using zeros assms(2) by (simp add: zeros_at_def)
    have "\<forall>g \<in> set (?head @ ?tail). g < 65536"
      using assms(1) by (auto dest: in_set_takeD in_set_dropD)
    then have "read_ipv6_addr (groups_text ?head @ 58 # 58 # groups_text ?tail @ s) =
        Some (?head @ replicate (8 - length ?tail - length ?head) 0 @ ?tail, s)"
      using assms len True by (intro read_ipv6_addr_groups) auto
    moreover have "8 - length ?tail - length ?head = len" using assms(2) len by simp
    ultimately show ?thesis
      using False span True zeros_at_split [OF zeros] by (simp add: ipv6_text_def)
  next
    case short: False
    have "read_groups 0 8 (groups_text gs @ s) = (gs, False, s)"
      using assms by (intro read_groups_text) auto
    then show ?thesis using False span short assms(2) by (simp add: ipv6_text_def read_ipv6_addr_def)
  qed
qed

lemma unat_of_port: "n < 65536 \<Longrightarrow> unat (of_nat n :: u16) = n"
  by (simp add: unat_of_nat)

lemma read_port_text: "read_port (58 # digits 10 (unat (port :: u16))) = Some (unat port, [])"
proof -
  have "unat port \<le> 65535" using unsigned_less [of port, where 'a = nat] by simp
  then have "read_number 10 None True 65535 (digits 10 (unat port) @ []) = Some (unat port, [])"
    by (intro read_number_digits) auto
  then show ?thesis by (simp add: read_port_def)
qed

lemma read_scope_id_text:
  assumes "stops 10 s"
  shows "read_scope_id (37 # digits 10 (unat (scope :: u32)) @ s) = Some (unat scope, s)"
proof -
  have "unat scope \<le> 4294967295" using unsigned_less [of scope, where 'a = nat] by simp
  then have "read_number 10 None True 4294967295 (digits 10 (unat scope) @ s) = Some (unat scope, s)"
    using assms by (intro read_number_digits) auto
  then show ?thesis by (simp add: read_scope_id_def)
qed

lemma octets_less: "\<forall>d \<in> set (ipv4_octets ip). d < 256" "length (ipv4_octets ip) = 4"
  by (auto simp: ipv4_octets_def dest: to_digits_less [rotated])

lemma segments_less: "\<forall>d \<in> set (ipv6_segments ip). d < 65536" "length (ipv6_segments ip) = 8"
  by (auto simp: ipv6_segments_def dest: to_digits_less [rotated])

section \<open>Parsing what was printed\<close>

text \<open>The flow information is lost in the text.\<close>

fun without_flowinfo :: "socket_addr \<Rightarrow> socket_addr" where
  "without_flowinfo (V6 (SocketAddrV6 ip port flowinfo scope_id)) = V6 (SocketAddrV6 ip port 0 scope_id)"
| "without_flowinfo a = a"

lemma groups_text_no_period: "46 \<notin> set (groups_text gs)"
  by (cases gs) (simp_all add: groups_text_def join_Cons digits_no_period sep_all_no_period)

lemma read_ipv4_addr_ipv6_text: "read_ipv4_addr (ipv6_text gs) = None"
proof (cases "ipv4_mapped gs")
  case True
  then show ?thesis by (simp add: ipv6_text_def read_ipv4_addr_stops)
next
  case False
  then show ?thesis
    by (intro read_ipv4_addr_no_period)
      (auto simp: ipv6_text_def groups_text_no_period split: prod.split)
qed

lemma parse_ip_text: "parse_ip (ip_addr_text ip) = Some ip"
proof (cases ip)
  case (IpV4 v4)
  have "read_ipv4_addr (ipv4_text (ipv4_octets v4) @ []) = Some (ipv4_octets v4, [])"
    using octets_less by (intro read_ipv4_addr_text) auto
  then show ?thesis
    by (simp add: IpV4 parse_ip_def parse_with_def read_ip_addr_def ipv4_from_octets)
next
  case (IpV6 v6)
  have "read_ipv6_addr (ipv6_text (ipv6_segments v6) @ []) = Some (ipv6_segments v6, [])"
    using segments_less by (intro read_ipv6_addr_text) (auto simp: groups_end_def)
  then show ?thesis
    by (simp add: IpV6 parse_ip_def parse_with_def read_ip_addr_def read_ipv4_addr_ipv6_text ipv6_from_segments)
qed

lemma read_socket_addr_v6_text:
  "read_socket_addr_v6 (socket_addr_text (V6 (SocketAddrV6 ip port flowinfo scope))) =
     Some (SocketAddrV6 ip port 0 scope, [])"
proof -
  let ?tail = "93 # 58 # digits 10 (unat port)"
  let ?s = "(if scope = 0 then [] else 37 # digits 10 (unat scope)) @ ?tail"
  have "read_ipv6_addr (ipv6_text (ipv6_segments ip) @ ?s) = Some (ipv6_segments ip, ?s)"
    using segments_less
    by (intro read_ipv6_addr_text) (auto simp: groups_end_def digits_no_period)
  moreover have "(case read_scope_id ?s of None \<Rightarrow> (0, ?s) | Some x \<Rightarrow> x) = (unat scope, ?tail)"
  proof (cases "scope = 0")
    case True
    then show ?thesis by (simp add: read_scope_id_def)
  next
    case False
    then show ?thesis using read_scope_id_text [of ?tail scope] by simp
  qed
  ultimately show ?thesis
    using read_port_text [of port] by (simp add: read_socket_addr_v6_def ipv6_from_segments)
qed

lemma parse_addr_text: "parse_addr (socket_addr_text a) = Some (without_flowinfo a)"
proof (cases a rule: without_flowinfo.cases)
  case (1 ip port flowinfo scope)
  have "read_socket_addr_v4 (socket_addr_text a) = None"
    by (simp add: 1 read_socket_addr_v4_def read_ipv4_addr_stops)
  then show ?thesis
    using read_socket_addr_v6_text [of ip port flowinfo scope]
    by (simp only: 1 parse_addr_def parse_with_def read_socket_addr_def) simp
next
  case (2 v)
  obtain ip port where v: "v = SocketAddrV4 ip port" by (cases v)
  have "read_ipv4_addr (ipv4_text (ipv4_octets ip) @ 58 # digits 10 (unat port)) =
      Some (ipv4_octets ip, 58 # digits 10 (unat port))"
    using octets_less by (intro read_ipv4_addr_text) auto
  then show ?thesis
    by (simp add: 2 v parse_addr_def parse_with_def read_socket_addr_def read_socket_addr_v4_def
        read_port_text ipv4_from_octets)
qed

text \<open>What begins with neither a digit nor a bracket is no socket address.\<close>

lemma parse_addr_name:
  assumes "s \<noteq> []" and "\<not> (48 \<le> hd s \<and> hd s \<le> 57)" and "hd s \<noteq> 91"
  shows "parse_addr s = None"
proof -
  have "stops 10 s" using assms(1,2) by (auto simp: stops_def to_digit_def Let_def)
  then have "read_ipv4_addr s = None" by (rule read_ipv4_addr_stops)
  moreover have "read_given_char 91 s = None" using assms(1,3) by (cases s) auto
  ultimately show ?thesis
    by (simp add: parse_addr_def parse_with_def read_socket_addr_def read_socket_addr_v4_def read_socket_addr_v6_def)
qed

end
