(* ===== verification/Sock_Addr.thy ===== *)
theory Sock_Addr
  imports Io_Event Std_Net
begin

text \<open>
  \<open>src/net/sockaddr/to_socket_addrs.rs\<close> and \<open>src/net/sockaddr/get_addr_info.rs\<close>: what can be
  turned into socket addresses, at once or by an asynchronous lookup, and the iterator over the
  result. The locale \<open>addr_iterator\<close> is the interface of that iterator to the loops over it.

  The parsers of the standard library for addresses are in the theory \<open>Std_Net\<close>. The list the
  lookup leaves in memory is a parameter (\<open>addrinfo_mem\<close>), with the addresses that the crate
  \<open>socket2\<close> reads from it.
\<close>

section \<open>Addresses and strings\<close>

fun socket_addr_new :: "ip_addr \<Rightarrow> u16 \<Rightarrow> socket_addr" where
  "socket_addr_new (IpV4 ip) port = V4 (SocketAddrV4 ip port)"
| "socket_addr_new (IpV6 ip) port = V6 (SocketAddrV6 ip port 0 0)"

text \<open>\<open>OsStr::encode_wide\<close>: UTF-16.\<close>

definition encode_utf16 :: "nat \<Rightarrow> u16 list" where
  "encode_utf16 c =
     (if c < 0x10000 then [of_nat c]
      else [of_nat (0xD800 + (c - 0x10000) div 0x400), of_nat (0xDC00 + (c - 0x10000) mod 0x400)])"

definition to_wstr :: "rstr \<Rightarrow> u16 list" where
  "to_wstr s = concat (map encode_utf16 s) @ [0]"

text \<open>\<open>u16::to_string\<close>.\<close>

definition u16_to_string :: "u16 \<Rightarrow> rstr" where
  "u16_to_string p = digits 10 (unat p)"

text \<open>\<open>str::split\<close> on one character: the pieces between its occurrences.\<close>

fun split_on :: "nat \<Rightarrow> rstr \<Rightarrow> rstr list" where
  "split_on d [] = [[]]"
| "split_on d (c # cs) =
     (if c = d then [] # split_on d cs
      else (case split_on d cs of [] \<Rightarrow> [[c]] | p # ps \<Rightarrow> (c # p) # ps))"

section \<open>Looking up a name\<close>

record gai_future =
  gai_host :: "u16 list"
  gai_port :: "u16 list option"
  gai_event :: "io_event res"

text \<open>58 is the colon.\<close>

definition host_and_port :: "rstr \<Rightarrow> u16 option \<Rightarrow> rstr \<times> u16 list option" where
  "host_and_port host port =
     (case port of
        Some p \<Rightarrow> (host, Some (to_wstr (u16_to_string p)))
      | None \<Rightarrow>
          (case split_on 58 host of
             h # p # _ \<Rightarrow> (h, Some (to_wstr p))
           | [h] \<Rightarrow> (h, None)
           | [] \<Rightarrow> ([], None)))"

definition get_addr_info ::
  "platform \<Rightarrow> rstr \<Rightarrow> u16 option \<Rightarrow> tp_environ \<Rightarrow> (io_world, gai_future) state" where
  "get_addr_info p host port callback_environ =
     (let (host, port) = host_and_port host port in do {
       event \<leftarrow> io_event_new p OvLookup callback_environ;
       State_Monad.return \<lparr>gai_host = to_wstr host, gai_port = port, gai_event = event\<rparr> })"

record gai_iter =
  addrinfo :: ptr
  it_current :: ptr

text \<open>The closure \<open>GetAddrInfoFuture::poll\<close> gives to the event. 997 is \<open>WSA_IO_PENDING\<close>.\<close>

definition gai_schedule :: "platform \<Rightarrow> gai_future \<Rightarrow> event_schedule" where
  "gai_schedule p self = do {
     ret \<leftarrow> sys p (GetAddrInfoExW (gai_host self) (gai_port self));
     State_Monad.return
       (if ret = 0 then Ready (Ok ()) else if ret = 997 then Pending else Ready (Err (Os ret))) }"

text \<open>\<open>self.inner.result\<close>: the pointer the system has stored there by now.\<close>

definition gai_result :: "platform \<Rightarrow> gai_future \<Rightarrow> (io_world, ptr) state" where
  "gai_result p self =
     State (\<lambda>w. (outp p (wlog w) (GetAddrInfoExW (gai_host self) (gai_port self)), w))"

definition gai_poll :: "platform \<Rightarrow> gai_future \<Rightarrow> waker \<Rightarrow> (io_world, gai_iter res poll) state" where
  "gai_poll p self cx =
     (case gai_event self of
        Ok event \<Rightarrow> do {
          poll \<leftarrow> io_event_poll p event None cx (gai_schedule p self);
          case poll of
            Ready (Ok _) \<Rightarrow> do {
              r \<leftarrow> gai_result p self;
              State_Monad.return (Ready (Ok \<lparr>addrinfo = r, it_current = r\<rparr>)) }
          | Ready (Err err) \<Rightarrow> State_Monad.return (Ready (Err err))
          | Ready (Fault f) \<Rightarrow> State_Monad.return (Ready (Fault f))
          | Pending \<Rightarrow> State_Monad.return Pending }
      | Err err \<Rightarrow> State_Monad.return (Ready (Err (Os (case raw_os_error err of Some n \<Rightarrow> n | None \<Rightarrow> 0))))
      | Fault f \<Rightarrow> State_Monad.return (Ready (Fault f)))"

section \<open>Iterators over addresses\<close>

record addrinfo_mem =
  ai_next :: "ptr \<Rightarrow> ptr"
  ai_std :: "ptr \<Rightarrow> socket_addr option"
    \<comment> \<open>\<open>SockAddr::from_raw_parts(ai_addr, ai_addrlen).as_std()\<close>\<close>

text \<open>\<open>next\<close> calls itself to skip an address that is not an internet address; the fuel bounds the
  number of calls, \<open>None\<close> is a call that has not returned.\<close>

primrec gai_iter_next :: "addrinfo_mem \<Rightarrow> nat \<Rightarrow> gai_iter \<Rightarrow> (socket_addr option \<times> gai_iter) option" where
  "gai_iter_next m 0 self = None"
| "gai_iter_next m (Suc fuel) self =
     (if it_current self = 0 then Some (None, self)
      else
        (let cur = it_current self; self = self\<lparr>it_current := ai_next m cur\<rparr> in
         case ai_std m cur of Some a \<Rightarrow> Some (Some a, self) | None \<Rightarrow> gai_iter_next m fuel self))"

definition gai_iter_drop :: "platform \<Rightarrow> gai_iter \<Rightarrow> (io_world, unit) state" where
  "gai_iter_drop p self = do { _ \<leftarrow> sys p (FreeAddrInfoExW (addrinfo self)); State_Monad.return () }"

datatype to_socket_addrs = Immediate socket_addr | Slice "socket_addr list" | Future gai_future

datatype to_socket_addrs_iter =
    ImmediateIter "socket_addr option" \<comment> \<open>\<open>iter::Once\<close>\<close>
  | SliceIter "socket_addr list"
  | FutureIter gai_iter

definition to_socket_addrs_poll ::
  "platform \<Rightarrow> to_socket_addrs \<Rightarrow> waker \<Rightarrow> (io_world, to_socket_addrs_iter res poll) state" where
  "to_socket_addrs_poll p self cx =
     (case self of
        Immediate addr \<Rightarrow> State_Monad.return (Ready (Ok (ImmediateIter (Some addr))))
      | Slice addrs \<Rightarrow> State_Monad.return (Ready (Ok (SliceIter addrs)))
      | Future future \<Rightarrow> do {
          poll \<leftarrow> gai_poll p future cx;
          State_Monad.return
            (case poll of
               Ready (Ok it) \<Rightarrow> Ready (Ok (FutureIter it))
             | Ready (Err err) \<Rightarrow> Ready (Err err)
             | Ready (Fault f) \<Rightarrow> Ready (Fault f)
             | Pending \<Rightarrow> Pending) })"

fun to_socket_addrs_iter_next ::
  "addrinfo_mem \<Rightarrow> nat \<Rightarrow> to_socket_addrs_iter \<Rightarrow> (socket_addr option \<times> to_socket_addrs_iter) option" where
  "to_socket_addrs_iter_next m fuel (ImmediateIter a) = Some (a, ImmediateIter None)"
| "to_socket_addrs_iter_next m fuel (SliceIter []) = Some (None, SliceIter [])"
| "to_socket_addrs_iter_next m fuel (SliceIter (a # as)) = Some (Some a, SliceIter as)"
| "to_socket_addrs_iter_next m fuel (FutureIter it) =
     map_option (\<lambda>(a, it). (a, FutureIter it)) (gai_iter_next m fuel it)"

text \<open>\<open>size_hint\<close>: of \<open>Once\<close> and of a slice iterator exact, of the lookup the default.\<close>

fun to_socket_addrs_iter_size_hint :: "to_socket_addrs_iter \<Rightarrow> nat \<times> nat option" where
  "to_socket_addrs_iter_size_hint (ImmediateIter None) = (0, Some 0)"
| "to_socket_addrs_iter_size_hint (ImmediateIter (Some _)) = (1, Some 1)"
| "to_socket_addrs_iter_size_hint (SliceIter as) = (length as, Some (length as))"
| "to_socket_addrs_iter_size_hint (FutureIter _) = (0, None)"

fun to_socket_addrs_iter_drop :: "platform \<Rightarrow> to_socket_addrs_iter \<Rightarrow> (io_world, unit) state" where
  "to_socket_addrs_iter_drop p (FutureIter it) = gai_iter_drop p it"
| "to_socket_addrs_iter_drop p _ = State_Monad.return ()"

section \<open>Implementations of the trait\<close>

definition socket_addr_to_socket_addrs :: "socket_addr \<Rightarrow> to_socket_addrs" where
  "socket_addr_to_socket_addrs self = Immediate self"

definition v4_to_socket_addrs :: "socket_addr_v4 \<Rightarrow> to_socket_addrs" where
  "v4_to_socket_addrs self = Immediate (V4 self)"

definition v6_to_socket_addrs :: "socket_addr_v6 \<Rightarrow> to_socket_addrs" where
  "v6_to_socket_addrs self = Immediate (V6 self)"

definition ip_to_socket_addrs :: "ip_addr \<times> u16 \<Rightarrow> to_socket_addrs" where
  "ip_to_socket_addrs self = Immediate (socket_addr_new (fst self) (snd self))"

definition slice_to_socket_addrs :: "socket_addr list \<Rightarrow> to_socket_addrs" where
  "slice_to_socket_addrs self = Slice self"

definition str_to_socket_addrs ::
  "platform \<Rightarrow> rstr \<Rightarrow> (io_world, to_socket_addrs res) state" where
  "str_to_socket_addrs p self =
     (case parse_addr self of
        Some addr \<Rightarrow> State_Monad.return (Ok (Immediate addr))
      | None \<Rightarrow> qmark current (\<lambda>h. do {
          future \<leftarrow> get_addr_info p self None (handle_callback_environ p h);
          State_Monad.return (Ok (Future future)) }))"

definition str_port_to_socket_addrs ::
  "platform \<Rightarrow> rstr \<times> u16 \<Rightarrow> (io_world, to_socket_addrs res) state" where
  "str_port_to_socket_addrs p self =
     (case parse_ip (fst self) of
        Some ip \<Rightarrow> State_Monad.return (Ok (Immediate (socket_addr_new ip (snd self))))
      | None \<Rightarrow> qmark current (\<lambda>h. do {
          future \<leftarrow> get_addr_info p (fst self) (Some (snd self)) (handle_callback_environ p h);
          State_Monad.return (Ok (Future future)) }))"

text \<open>A reference to something that resolves resolves the same way.\<close>

definition ref_to_socket_addrs ::
  "('t \<Rightarrow> (io_world, to_socket_addrs res) state) \<Rightarrow> 't \<Rightarrow> (io_world, to_socket_addrs res) state" where
  "ref_to_socket_addrs to_socket_addrs self = to_socket_addrs self"

section \<open>Wide strings\<close>

text \<open>How the system reads a wide string: UTF-16 up to the first zero.\<close>

fun wide_chars :: "u16 list \<Rightarrow> rstr" where
  "wide_chars [] = []"
| "wide_chars (x # xs) =
     (if x = 0 then []
      else if unat x div 0x400 = 54 then
        (case xs of
           [] \<Rightarrow> []
         | y # ys \<Rightarrow> (0x10000 + (unat x - 0xD800) * 0x400 + (unat y - 0xDC00)) # wide_chars ys)
      else unat x # wide_chars xs)"

definition scalar :: "nat \<Rightarrow> bool" where
  "scalar c \<longleftrightarrow> c < 0x110000 \<and> \<not> (0xD800 \<le> c \<and> c < 0xE000)"

lemma unat_u16_of_nat: "n < 0x10000 \<Longrightarrow> unat (of_nat n :: u16) = n"
  by (simp add: unat_of_nat)

lemma surrogates:
  assumes "scalar c" and "\<not> c < 0x10000"
  shows "unat (of_nat (0xD800 + (c - 0x10000) div 0x400) :: u16) = 0xD800 + (c - 0x10000) div 0x400"
    and "unat (of_nat (0xDC00 + (c - 0x10000) mod 0x400) :: u16) = 0xDC00 + (c - 0x10000) mod 0x400"
    and "(c - 0x10000) div 0x400 < 0x400"
proof -
  have "c - 0x10000 < 0x400 * 0x400" using assms by (auto simp: scalar_def)
  then show d: "(c - 0x10000) div 0x400 < 0x400" by (simp add: div_less_iff_less_mult)
  then show "unat (of_nat (0xD800 + (c - 0x10000) div 0x400) :: u16) = 0xD800 + (c - 0x10000) div 0x400"
    by (intro unat_u16_of_nat) simp
  show "unat (of_nat (0xDC00 + (c - 0x10000) mod 0x400) :: u16) = 0xDC00 + (c - 0x10000) mod 0x400"
    using mod_less_divisor [of "0x400" "c - 0x10000"] by (intro unat_u16_of_nat) simp
qed

lemma encode_utf16_nonzero:
  assumes "scalar c" and "c \<noteq> 0"
  shows "0 \<notin> set (encode_utf16 c)"
proof (cases "c < 0x10000")
  case True
  then have "unat (of_nat c :: u16) \<noteq> 0" using assms(2) by (simp add: unat_of_nat)
  then have "(of_nat c :: u16) \<noteq> 0" by (metis unat_0)
  then show ?thesis using True by (simp add: encode_utf16_def)
next
  case False
  then have "unat x \<noteq> 0" if "x \<in> set (encode_utf16 c)" for x
    using that surrogates(1,2) [OF assms(1) False] unfolding encode_utf16_def by auto
  then show ?thesis by fastforce
qed

lemma wide_chars_encode:
  assumes "scalar c" and "c \<noteq> 0"
  shows "wide_chars (encode_utf16 c @ r) = c # wide_chars r"
proof (cases "c < 0x10000")
  case True
  then have c: "unat (of_nat c :: u16) = c" by (simp add: unat_of_nat)
  then have "(of_nat c :: u16) \<noteq> 0" using assms(2) by (metis unat_0)
  moreover have "c div 0x400 \<noteq> 54"
    using assms(1) True by (auto simp: scalar_def div_nat_eqI)
  ultimately show ?thesis using True c by (simp add: encode_utf16_def)
next
  case False
  let ?d = "c - 0x10000"
  note pair = surrogates [OF assms(1) False]
  have "(0xD800 + ?d div 0x400) div 0x400 = 54" using pair(3) by simp
  moreover have "(of_nat (0xD800 + ?d div 0x400) :: u16) \<noteq> 0"
    using encode_utf16_nonzero [OF assms] False by (auto simp: encode_utf16_def)
  moreover have "0x10000 + ?d div 0x400 * 0x400 + ?d mod 0x400 = c"
    using False div_mult_mod_eq [of ?d "0x400"] by simp
  ultimately show ?thesis using False pair(1,2) unfolding encode_utf16_def by simp
qed

text \<open>
  Property C33: names reach the system unchanged. The wide string made from a Rust string without
  a zero character is read back as that string, and it is terminated by the only zero in it.
\<close>

theorem to_wstr_round_trip:
  assumes "\<forall>c \<in> set s. scalar c \<and> c \<noteq> 0"
  shows "wide_chars (to_wstr s) = s \<and> 0 \<notin> set (butlast (to_wstr s)) \<and> last (to_wstr s) = 0"
proof -
  have "wide_chars (concat (map encode_utf16 s) @ [0]) = s"
    using assms by (induction s) (simp_all add: wide_chars_encode)
  then show ?thesis using assms encode_utf16_nonzero by (auto simp: to_wstr_def)
qed

section \<open>Hosts and ports\<close>

lemma split_on_none: "d \<notin> set cs \<Longrightarrow> split_on d cs = [cs]"
  by (induction cs) auto

lemma split_on_append: "d \<notin> set cs \<Longrightarrow> split_on d (cs @ d # ds) = cs # split_on d ds"
  by (induction cs) auto

lemma split_on_not_Nil: "split_on d cs \<noteq> []"
  by (induction cs) (auto split: list.split)


text \<open>
  Property: how a name is taken apart. With a port given, the host is the whole name and the
  service the decimal port; otherwise the name is cut at the colons: the first piece is the host
  and the second the service. A name with one colon is \<open>host:service\<close>; of one with more colons,
  such as an IPv6 address, everything from the second colon on is ignored.
\<close>

theorem host_and_port_splits:
  assumes "58 \<notin> set h" and "58 \<notin> set s"
  shows "host_and_port h None = (h, None) \<and>
    host_and_port (h @ 58 # s) None = (h, Some (to_wstr s)) \<and>
    host_and_port (h @ 58 # s @ 58 # t) None = (h, Some (to_wstr s)) \<and>
    host_and_port n (Some port) = (n, Some (to_wstr (digits 10 (unat port))))"
  using assms
  by (simp add: host_and_port_def split_on_none split_on_append u16_to_string_def)

section \<open>Literals and names\<close>

text \<open>
  Property C27: the text of an address stands for the address. Resolving the text of a socket
  address, or the text of an IP address with a port, makes no call and is the same as resolving
  the address itself (an IPv6 address without its flow information, which its text does not
  show).
\<close>

theorem literals_resolve_at_once:
  "run_state (str_to_socket_addrs p (socket_addr_text a)) w =
     (Ok (socket_addr_to_socket_addrs (without_flowinfo a)), w) \<and>
   run_state (str_port_to_socket_addrs p (ip_addr_text ip, port)) w =
     (Ok (ip_to_socket_addrs (ip, port)), w)"
  by (simp add: str_to_socket_addrs_def str_port_to_socket_addrs_def parse_addr_text parse_ip_text
      socket_addr_to_socket_addrs_def ip_to_socket_addrs_def)

text \<open>
  Property C28: a name is looked up. A string \<open>host:service\<close> that begins with neither a digit nor a
  bracket becomes the lookup of that host and that service, in the environment of the current
  handle, and the lookup is not started before it is polled.
\<close>

theorem names_are_looked_up:
  assumes "wctx w = Some h" and "host \<noteq> []" and "\<not> (48 \<le> hd host \<and> hd host \<le> 57)" and "hd host \<noteq> 91"
    and "58 \<notin> set host" and "58 \<notin> set service"
  shows "\<exists>event w'. run_state (str_to_socket_addrs p (host @ 58 # service)) w =
      (Ok (Future \<lparr>gai_host = to_wstr host, gai_port = Some (to_wstr service), gai_event = event\<rparr>), w') \<and>
    run_state (io_event_new p OvLookup (handle_callback_environ p h)) w = (event, w')"
proof -
  have "parse_addr (host @ 58 # service) = None"
    using assms(2-4) by (intro parse_addr_name) auto
  moreover have "host_and_port (host @ 58 # service) None = (host, Some (to_wstr service))"
    using assms(5,6) by (simp add: host_and_port_def split_on_none split_on_append)
  moreover have "run_state current w = (Ok h, w)"
    using assms(1) by (simp add: current_def run_simps)
  ultimately show ?thesis
    by (auto simp: str_to_socket_addrs_def get_addr_info_def run_simps split: prod.splits)
qed

section \<open>The contract of an iterator\<close>

text \<open>
  \<open>for x in it\<close>, with a state \<open>c\<close>: the body answers the new state and whether it breaks. \<open>None\<close>
  is a loop that has not ended after \<open>fuel\<close> rounds, or a body or a \<open>next\<close> that has not returned.
\<close>

primrec iterate ::
  "('i \<Rightarrow> ('a option \<times> 'i) option) \<Rightarrow> nat \<Rightarrow> ('a \<Rightarrow> 'c \<Rightarrow> ('s, ('c \<times> bool) option) state) \<Rightarrow> 'i \<Rightarrow> 'c
     \<Rightarrow> ('s, 'c option) state" where
  "iterate nxt 0 = (\<lambda>body i c. State_Monad.return None)"
| "iterate nxt (Suc fuel) = (\<lambda>body i c.
     case nxt i of
       None \<Rightarrow> State_Monad.return None
     | Some (None, i') \<Rightarrow> State_Monad.return (Some c)
     | Some (Some x, i') \<Rightarrow> do {
         r \<leftarrow> body x c;
         case r of
           None \<Rightarrow> State_Monad.return None
         | Some (c', stop) \<Rightarrow> if stop then State_Monad.return (Some c') else iterate nxt fuel body i' c' })"

fun over_list :: "('a \<Rightarrow> 'c \<Rightarrow> ('s, ('c \<times> bool) option) state) \<Rightarrow> 'a list \<Rightarrow> 'c \<Rightarrow> ('s, 'c option) state" where
  "over_list body [] c = State_Monad.return (Some c)"
| "over_list body (x # xs) c = do {
     r \<leftarrow> body x c;
     case r of
       None \<Rightarrow> State_Monad.return None
     | Some (c', stop) \<Rightarrow> if stop then State_Monad.return (Some c') else over_list body xs c' }"

locale addr_iterator =
  fixes nxt :: "'i \<Rightarrow> ('a option \<times> 'i) option"
    and items :: "'i \<Rightarrow> 'a list"
    and ok :: "'i \<Rightarrow> bool"
  assumes nxt_end: "ok i \<Longrightarrow> items i = [] \<Longrightarrow> \<exists>i'. nxt i = Some (None, i')"
    and nxt_item: "ok i \<Longrightarrow> items i = x # xs \<Longrightarrow> \<exists>i'. nxt i = Some (Some x, i') \<and> ok i' \<and> items i' = xs"
begin

text \<open>A loop over the iterator is the loop over its items, with one round more than items.\<close>

lemma iterate_items:
  assumes "ok i" and "length (items i) < fuel"
  shows "iterate nxt fuel body i c = over_list body (items i) c"
  using assms
proof (induction fuel arbitrary: i c)
  case (Suc fuel)
  show ?case
  proof (cases "items i")
    case Nil
    then show ?thesis using nxt_end [OF Suc.prems(1) Nil] by auto
  next
    case (Cons x xs)
    then obtain i' where i': "nxt i = Some (Some x, i')" "ok i'" "items i' = xs"
      using nxt_item [OF Suc.prems(1) Cons] by blast
    have "iterate nxt fuel body i' = over_list body xs"
      using Suc.IH [OF i'(2)] i'(3) Cons Suc.prems(2) by (intro ext) simp
    then show ?thesis using Cons i'(1) by (simp cong: if_cong)
  qed
qed simp

end

text \<open>The list in memory from a pointer on: null-terminated.\<close>

fun ai_chain :: "addrinfo_mem \<Rightarrow> ptr \<Rightarrow> ptr list \<Rightarrow> bool" where
  "ai_chain m p [] \<longleftrightarrow> p = 0"
| "ai_chain m p (q # qs) \<longleftrightarrow> p = q \<and> q \<noteq> 0 \<and> ai_chain m (ai_next m q) qs"

primrec ai_walk :: "addrinfo_mem \<Rightarrow> nat \<Rightarrow> ptr \<Rightarrow> ptr list" where
  "ai_walk m 0 p = []"
| "ai_walk m (Suc n) p = (if p = 0 then [] else p # ai_walk m n (ai_next m p))"

lemma ai_walk_chain: "ai_chain m p ps \<Longrightarrow> length ps \<le> n \<Longrightarrow> ai_walk m n p = ps"
proof (induction ps arbitrary: n p)
  case Nil
  then show ?case by (cases n) auto
next
  case (Cons q qs)
  then show ?case by (cases n) auto
qed

definition gai_items :: "addrinfo_mem \<Rightarrow> nat \<Rightarrow> gai_iter \<Rightarrow> socket_addr list" where
  "gai_items m n it = List.map_filter (ai_std m) (ai_walk m n (it_current it))"

definition gai_ok :: "addrinfo_mem \<Rightarrow> nat \<Rightarrow> gai_iter \<Rightarrow> bool" where
  "gai_ok m n it \<longleftrightarrow> (\<exists>ps. ai_chain m (it_current it) ps \<and> length ps < n)"

lemma gai_iter_next_chain:
  assumes "ai_chain m (it_current it) ps" and "length ps < n"
  shows "case List.map_filter (ai_std m) ps of
      [] \<Rightarrow> \<exists>it'. gai_iter_next m n it = Some (None, it')
    | a # as \<Rightarrow> \<exists>it' qs. gai_iter_next m n it = Some (Some a, it') \<and> ai_chain m (it_current it') qs \<and>
        length qs < length ps \<and> List.map_filter (ai_std m) qs = as"
  using assms
proof (induction ps arbitrary: it n)
  case Nil
  then show ?case by (cases n) (auto simp: List.map_filter_simps)
next
  case (Cons q qs)
  obtain k where n: "n = Suc k" using Cons.prems(2) by (cases n) auto
  let ?it = "it\<lparr>it_current := ai_next m q\<rparr>"
  have cur: "it_current it = q" "q \<noteq> 0" "ai_chain m (it_current ?it) qs"
    using Cons.prems(1) by auto
  show ?case
  proof (cases "ai_std m q")
    case None
    have "length qs < k" using Cons.prems(2) n by simp
    then show ?thesis
      using Cons.IH [OF cur(3), of k] cur(1,2) None n
      by (auto simp: List.map_filter_simps Let_def less_Suc_eq split: list.splits)
  next
    case (Some a)
    then show ?thesis using cur n
      by (auto simp: List.map_filter_simps Let_def intro!: exI [of _ qs])
  qed
qed


interpretation gai: addr_iterator "gai_iter_next m n" "gai_items m n" "gai_ok m n"
  for m :: addrinfo_mem and n :: nat
proof
  fix it
  assume "gai_ok m n it"
  then obtain ps where ps: "ai_chain m (it_current it) ps" "length ps < n" by (auto simp: gai_ok_def)
  have items: "gai_items m n it = List.map_filter (ai_std m) ps"
    using ai_walk_chain [OF ps(1)] ps(2) by (simp add: gai_items_def)
  note nxt = gai_iter_next_chain [OF ps]
  show "\<exists>it'. gai_iter_next m n it = Some (None, it')" if "gai_items m n it = []"
    using nxt items that by simp
  show "\<exists>it'. gai_iter_next m n it = Some (Some a, it') \<and> gai_ok m n it' \<and> gai_items m n it' = as"
    if "gai_items m n it = a # as" for a as
  proof -
    have "\<exists>it' qs. gai_iter_next m n it = Some (Some a, it') \<and> ai_chain m (it_current it') qs \<and>
        length qs < length ps \<and> List.map_filter (ai_std m) qs = as"
      using nxt unfolding items [symmetric] that by simp
    then obtain it' qs where it': "gai_iter_next m n it = Some (Some a, it')"
      "ai_chain m (it_current it') qs" "length qs < length ps" "List.map_filter (ai_std m) qs = as"
      by blast
    have "ai_walk m n (it_current it') = qs"
      using ai_walk_chain [OF it'(2)] it'(3) ps(2) by simp
    moreover have "gai_ok m n it'" using it'(2,3) ps(2) by (auto simp: gai_ok_def)
    ultimately show ?thesis using it'(1,4) by (auto simp: gai_items_def)
  qed
qed

fun iter_items :: "addrinfo_mem \<Rightarrow> nat \<Rightarrow> to_socket_addrs_iter \<Rightarrow> socket_addr list" where
  "iter_items m n (ImmediateIter None) = []"
| "iter_items m n (ImmediateIter (Some a)) = [a]"
| "iter_items m n (SliceIter as) = as"
| "iter_items m n (FutureIter it) = gai_items m n it"

fun iter_ok :: "addrinfo_mem \<Rightarrow> nat \<Rightarrow> to_socket_addrs_iter \<Rightarrow> bool" where
  "iter_ok m n (FutureIter it) = gai_ok m n it"
| "iter_ok m n _ = True"

interpretation tsa: addr_iterator "to_socket_addrs_iter_next m n" "iter_items m n" "iter_ok m n"
  for m :: addrinfo_mem and n :: nat
proof
  fix it
  assume ok: "iter_ok m n it"
  show "\<exists>it'. to_socket_addrs_iter_next m n it = Some (None, it')" if "iter_items m n it = []"
  proof (cases it)
    case (ImmediateIter a)
    then show ?thesis using that by (cases a) auto
  next
    case (FutureIter g)
    then show ?thesis using gai.nxt_end [of m n g] that ok by auto
  qed (use that in auto)
  show "\<exists>it'. to_socket_addrs_iter_next m n it = Some (Some a, it') \<and> iter_ok m n it' \<and> iter_items m n it' = as"
    if "iter_items m n it = a # as" for a as
  proof (cases it)
    case (ImmediateIter x)
    then show ?thesis using that by (cases x) auto
  next
    case (FutureIter g)
    then show ?thesis using gai.nxt_item [of m n g a as] that ok by auto
  qed (use that in auto)
qed

section \<open>Properties\<close>

definition collect :: "socket_addr \<Rightarrow> socket_addr list \<Rightarrow> ('s, (socket_addr list \<times> bool) option) state" where
  "collect a as = State_Monad.return (Some (as @ [a], False))"

lemma over_list_collect: "over_list collect as bs = State_Monad.return (Some (bs @ as))"
  by (induction as arbitrary: bs) (simp_all add: collect_def)

text \<open>
  Property C26: a loop over resolved addresses visits them in order and ends. Over a literal it
  visits that address, over a slice its elements, and over the result of a lookup the internet
  addresses of the system's list, skipping the others, as soon as the list is null-terminated.
\<close>

theorem resolved_addresses_in_order:
  assumes "ai_chain m p ps" and "length ps < n" and "length ps < fuel" and "length as < fuel"
    and "1 < fuel"
  shows "iterate (to_socket_addrs_iter_next m n) fuel collect (ImmediateIter (Some a)) [] =
      State_Monad.return (Some [a]) \<and>
    iterate (to_socket_addrs_iter_next m n) fuel collect (SliceIter as) [] = State_Monad.return (Some as) \<and>
    iterate (to_socket_addrs_iter_next m n) fuel collect (FutureIter \<lparr>addrinfo = h, it_current = p\<rparr>) [] =
      State_Monad.return (Some (List.map_filter (ai_std m) ps))"
proof -
  let ?it = "FutureIter \<lparr>addrinfo = h, it_current = p\<rparr>"
  have items: "iter_items m n ?it = List.map_filter (ai_std m) ps"
    using ai_walk_chain [OF assms(1)] assms(2) by (simp add: gai_items_def)
  have "iter_ok m n ?it" using assms(1,2) by (auto simp: gai_ok_def)
  moreover have "length (List.map_filter (ai_std m) ps) \<le> length ps"
    by (induction ps) (auto simp: List.map_filter_simps split: option.split)
  ultimately have "iterate (to_socket_addrs_iter_next m n) fuel collect ?it [] =
      State_Monad.return (Some (List.map_filter (ai_std m) ps))"
    using tsa.iterate_items [of m n ?it fuel collect "[]"] assms(3) items by (simp add: over_list_collect)
  then show ?thesis
    using tsa.iterate_items [of m n "ImmediateIter (Some a)" fuel collect "[]"]
      tsa.iterate_items [of m n "SliceIter as" fuel collect "[]"] assms(4,5)
    by (simp add: over_list_collect del: over_list.simps)
qed


lemma gai_poll_fst:
  assumes "gai_event self = Ok ev"
  shows "fst (run_state (gai_poll p self k) w) =
      (let (r, w1) = run_state (io_event_poll p ev None k (gai_schedule p self)) w;
           x = outp p (wlog w1) (GetAddrInfoExW (gai_host self) (gai_port self))
       in case r of
            Pending \<Rightarrow> Pending
          | Ready (Ok _) \<Rightarrow> Ready (Ok \<lparr>addrinfo = x, it_current = x\<rparr>)
          | Ready (Err e) \<Rightarrow> Ready (Err e)
          | Ready (Fault f) \<Rightarrow> Ready (Fault f))"
    and "snd (run_state (gai_poll p self k) w) =
      snd (run_state (io_event_poll p ev None k (gai_schedule p self)) w)"
  using assms
  by (auto simp: gai_poll_def gai_result_def Let_def split: prod.split poll.split res.split)

text \<open>
  Property C25: the life of a lookup. The first poll asks the system once and is pending; after
  the event was signalled with wait result \<open>r\<close>, the next poll answers: with the error \<open>r\<close>, or,
  when \<open>r\<close> is zero, with an iterator over whatever list the system has stored. The outcome of
  the lookup itself is not consulted: one that failed answers \<open>Ok\<close> with an empty list.
\<close>

theorem lookup_completes:
  fixes k k' :: waker and env :: "(io_world \<Rightarrow> io_world) list" and r :: u32
  assumes "gai_event self = Ok ev" and "valid_at (ev_ov ev) w" and "phase_at (ev_ov ev) w = Idle"
    and "win p (wlog w) (GetAddrInfoExW (gai_host self) (gai_port self)) = 997"
  defines "w1 \<equiv> snd (run_state (gai_poll p self k) w)"
  defines "w2 \<equiv> snd (run_state (io_event_callback p env ev r) w1)"
  defines "x \<equiv> outp p (wlog (snd (run_state (gai_poll p self k') w2)))
      (GetAddrInfoExW (gai_host self) (gai_port self))"
  assumes "win p (wlog w2) (ResetEvent (ev_hEvent ev)) \<noteq> 0"
  shows "fst (run_state (gai_poll p self k) w) = Pending \<and>
    fst (run_state (gai_poll p self k') w2) =
      Ready (if r = 0 then Ok \<lparr>addrinfo = x, it_current = x\<rparr> else Err (Os (sint r)))"
proof -
  have "event_pends ev (gai_schedule p self) w"
    using assms(4) by (simp add: event_pends_def gai_schedule_def run_simps scheduling_world_def)
  from event.operation [OF assms(2,3) this, where ks = "[]" and r = r and env = env and p = p and hdl = None
      and k = k and k' = k' and sch' = "gai_schedule p self"]
  have ops: "fst (run_state (io_event_poll p ev None k (gai_schedule p self)) w) = Pending"
    "fst (run_state (io_event_poll p ev None k' (gai_schedule p self)) w2) =
       Ready (event_answer p ev None (io_result_set r 0) w2)"
    by (simp_all add: w2_def w1_def gai_poll_fst(2) [OF assms(1)])
  have "event_answer p ev None (io_result_set r 0) w2 = (if r = 0 then Ok () else Err (Os (sint r)))"
    using assms(8) by (simp add: event_answer_def Let_def io_result_get_set)
  then show ?thesis
    using ops unfolding x_def
    by (simp add: gai_poll_fst [OF assms(1)] Let_def split_beta)
qed

section \<open>Witnesses\<close>

theorem to_wstr_round_trip_witness:
  "wide_chars (to_wstr [104, 0x1F600]) = [104, 0x1F600] \<and> to_wstr [104, 0x1F600] = [104, 0xD83D, 0xDE00, 0]"
  using to_wstr_round_trip [of "[104, 0x1F600]"]
  by (simp add: scalar_def) (simp add: to_wstr_def encode_utf16_def)

theorem names_are_looked_up_witness:
  "let p = sample_platform (\<lambda>c. 5);
       h = \<lparr>inner = \<lparr>high_work = 1, normal_work = 2, low_work = 3, inner_environ = base_environ p 4 5\<rparr>,
            h_priority = High, callback_instance = None\<rparr>
   in \<exists>ev w'. run_state (str_to_socket_addrs p [97, 46, 98, 58, 56, 48]) (idle_world\<lparr>wctx := Some h\<rparr>) =
     (Ok (Future \<lparr>gai_host = [97, 46, 98, 0], gai_port = Some [56, 48, 0], gai_event = ev\<rparr>), w')"
proof -
  let ?p = "sample_platform (\<lambda>c. 5)"
  let ?h = "\<lparr>inner = \<lparr>high_work = 1, normal_work = 2, low_work = 3, inner_environ = base_environ ?p 4 5\<rparr>,
            h_priority = High, callback_instance = None\<rparr>"
  from names_are_looked_up [of "idle_world\<lparr>wctx := Some ?h\<rparr>" ?h "[97, 46, 98]" "[56, 48]" ?p]
  show ?thesis by (auto simp: Let_def to_wstr_def encode_utf16_def)
qed

theorem host_and_port_splits_witness:
  "host_and_port [97, 58, 56, 48] None = ([97], Some [56, 48, 0]) \<and>
   host_and_port [58, 58, 49] None = ([], Some [0])"
  using host_and_port_splits [of "[97]" "[56, 48]"] host_and_port_splits [of "[]" "[]" "[49]"]
  by (simp add: to_wstr_def encode_utf16_def)

definition sample_addrinfo :: addrinfo_mem where
  "sample_addrinfo = \<lparr>ai_next = (\<lambda>p. if p = 3 then 0 else p + 1),
     ai_std = (\<lambda>p. if p = 2 then None else Some (V4 (SocketAddrV4 (word_of_int p) 80)))\<rparr>"

theorem resolved_addresses_in_order_witness:
  "run_state (iterate (to_socket_addrs_iter_next sample_addrinfo 4) 4 collect
      (FutureIter \<lparr>addrinfo = 1, it_current = 1\<rparr>) []) () =
    (Some [V4 (SocketAddrV4 1 80), V4 (SocketAddrV4 3 80)], ())"
proof -
  have "ai_chain sample_addrinfo 1 [1, 2, 3]" by (simp add: sample_addrinfo_def)
  then have "iterate (to_socket_addrs_iter_next sample_addrinfo 4) 4 collect
      (FutureIter \<lparr>addrinfo = 1, it_current = 1\<rparr>) [] =
    (State_Monad.return (Some (List.map_filter (ai_std sample_addrinfo) [1, 2, 3])) :: (unit, _) state)"
    by (rule resolved_addresses_in_order [where as = "[]", THEN conjunct2, THEN conjunct2]) simp_all
  then show ?thesis by (simp add: List.map_filter_simps sample_addrinfo_def)
qed

theorem lookup_completes_witness:
  "let p = sample_platform (\<lambda>c. case c of GetAddrInfoExW _ _ \<Rightarrow> 997 | _ \<Rightarrow> 1);
       f = \<lparr>gai_host = [97, 0], gai_port = None, gai_event = Ok \<lparr>ev_wait = 3, ev_hEvent = 4, ev_ov = OvLookup\<rparr>\<rparr>;
       w1 = snd (run_state (gai_poll p f 7) idle_world);
       w2 = snd (run_state (io_event_callback p [] \<lparr>ev_wait = 3, ev_hEvent = 4, ev_ov = OvLookup\<rparr> 0) w1)
   in fst (run_state (gai_poll p f 7) w2) = Ready (Ok \<lparr>addrinfo = 8, it_current = 8\<rparr>)"
  using lookup_completes [where
      self = "\<lparr>gai_host = [97, 0], gai_port = None, gai_event = Ok \<lparr>ev_wait = 3, ev_hEvent = 4, ev_ov = OvLookup\<rparr>\<rparr>"
      and ev = "\<lparr>ev_wait = 3, ev_hEvent = 4, ev_ov = OvLookup\<rparr>" and w = idle_world and k = 7 and k' = 7
      and p = "sample_platform (\<lambda>c. case c of GetAddrInfoExW _ _ \<Rightarrow> 997 | _ \<Rightarrow> 1)" and env = "[]" and r = 0]
  by (simp add: Let_def)

end
