(* ===== verification/Io_Buf.thy ===== *)
theory Io_Buf
  imports Wae_Prelude
begin

text \<open>
  Buffers: the conversions between Rust slices and \<open>WSABUF\<close> of \<open>IoSliceMut\<close>
  (\<open>src/io/read/mod.rs\<close>) and \<open>IoSlice\<close> (\<open>src/io/write/mod.rs\<close>), and the contract of the loops
  that \<open>ReadExact\<close> and \<open>WriteAll\<close> run over a buffer, as the locale \<open>exact_loop\<close>. Arithmetic on
  lengths wraps, as in a release build; that it does not under the contract is proved.
\<close>

section \<open>Slices\<close>

record slice =
  sl_ptr :: ptr
  sl_len :: usize

definition io_slice_mut_from :: "slice \<Rightarrow> wsabuf" where
  "io_slice_mut_from buf = \<lparr>buf_len = ucast (sl_len buf), buf_ptr = sl_ptr buf\<rparr>"

text \<open>Of uninitialised bytes; of a container that derefs to a slice; of \<open>std::io::IoSliceMut\<close>,
  which on Windows is a \<open>WSABUF\<close> and is transmuted.\<close>

definition io_slice_mut_from_uninit :: "slice \<Rightarrow> wsabuf" where
  "io_slice_mut_from_uninit buf = \<lparr>buf_len = ucast (sl_len buf), buf_ptr = sl_ptr buf\<rparr>"

definition io_slice_mut_from_deref :: "('t \<Rightarrow> slice) \<Rightarrow> 't \<Rightarrow> wsabuf" where
  "io_slice_mut_from_deref deref_mut buf = io_slice_mut_from (deref_mut buf)"

definition io_slice_mut_from_std :: "wsabuf \<Rightarrow> wsabuf" where
  "io_slice_mut_from_std buf = buf"

definition io_slice_mut_deref :: "wsabuf \<Rightarrow> slice" where
  "io_slice_mut_deref self = \<lparr>sl_ptr = buf_ptr self, sl_len = ucast (buf_len self)\<rparr>"

text \<open>\<open>as_wsabuf\<close> and \<open>as_mut_wsabuf\<close>: the struct is transparent, its only field is the \<open>WSABUF\<close>.\<close>

definition io_slice_mut_as_wsabuf :: "wsabuf \<Rightarrow> wsabuf" where
  "io_slice_mut_as_wsabuf self = self"

definition io_slice_mut_as_mut_wsabuf :: "wsabuf \<Rightarrow> wsabuf" where
  "io_slice_mut_as_mut_wsabuf self = self"

definition io_slice_from :: "slice \<Rightarrow> wsabuf" where
  "io_slice_from buf = \<lparr>buf_len = ucast (sl_len buf), buf_ptr = sl_ptr buf\<rparr>"

definition io_slice_as_wsabuf :: "wsabuf \<Rightarrow> wsabuf" where
  "io_slice_as_wsabuf self = self"

definition io_slice_from_deref :: "('t \<Rightarrow> slice) \<Rightarrow> 't \<Rightarrow> wsabuf" where
  "io_slice_from_deref deref buf = io_slice_from (deref buf)"

definition io_slice_from_std :: "wsabuf \<Rightarrow> wsabuf" where
  "io_slice_from_std buf = buf"

definition io_slice_deref :: "wsabuf \<Rightarrow> slice" where
  "io_slice_deref self = \<lparr>sl_ptr = buf_ptr self, sl_len = ucast (buf_len self)\<rparr>"

lemma unat_ucast_u32: "unat (ucast (x :: usize) :: u32) = unat x mod 2 ^ 32"
  by transfer (simp add: take_bit_eq_mod nat_mod_distrib nat_power_eq)

lemma unat_ucast_usize [simp]: "unat (ucast (x :: u32) :: usize) = unat x"
  by transfer simp

lemma unat_u32_less: "unat (x :: u32) < 2 ^ 32"
  using unsigned_less [of x] by simp

text \<open>
  Property: a buffer given to the system covers the slice it was made from exactly when the
  slice is shorter than \<open>2^32\<close> bytes; of a longer one only the length modulo \<open>2^32\<close> is
  transferred. It never reaches past the slice.
\<close>

theorem io_slice_round_trip:
  "(io_slice_mut_deref (io_slice_mut_from b) = b \<longleftrightarrow> unat (sl_len b) < 2 ^ 32) \<and>
   (io_slice_deref (io_slice_from b) = b \<longleftrightarrow> unat (sl_len b) < 2 ^ 32) \<and>
   sl_len (io_slice_mut_deref (io_slice_mut_from b)) \<le> sl_len b \<and>
   unat (sl_len (io_slice_deref (io_slice_from b))) = unat (sl_len b) mod 2 ^ 32"
proof -
  have len: "unat (ucast (ucast (sl_len b) :: u32) :: usize) = unat (sl_len b) mod 2 ^ 32"
    by (simp add: unat_ucast_u32)
  then have "(ucast (ucast (sl_len b) :: u32) :: usize) = sl_len b \<longleftrightarrow> unat (sl_len b) < 2 ^ 32"
    by (metis mod_less mod_less_divisor unsigned_word_eqI zero_less_numeral zero_less_power)
  moreover from len have "(ucast (ucast (sl_len b) :: u32) :: usize) \<le> sl_len b"
    by (simp add: word_le_nat_alt)
  ultimately show ?thesis using len
    by (cases b) (simp add: io_slice_mut_deref_def io_slice_mut_from_def io_slice_deref_def io_slice_from_def)
qed

section \<open>Loops over a buffer\<close>

text \<open>
  \<open>ReadExact::poll\<close> and \<open>WriteAll::poll\<close> call themselves until the counted bytes reach the
  length of the buffer, each time on the rest of the buffer.
\<close>

definition advance :: "wsabuf \<Rightarrow> usize \<Rightarrow> wsabuf" where
  "advance b n = b\<lparr>buf_len := buf_len b - ucast n, buf_ptr := buf_ptr b + uint n\<rparr>"

lemma unat_ucast_small: "unat (n :: usize) < 2 ^ 32 \<Longrightarrow> unat (ucast n :: u32) = unat n"
  by (simp add: unat_ucast_u32)

lemma advance_0 [simp]: "advance b 0 = b"
  by (simp add: advance_def)

lemma advance_len:
  "unat n \<le> unat (buf_len b) \<Longrightarrow> unat (buf_len (advance b n)) = unat (buf_len b) - unat n"
  using unat_u32_less [of "buf_len b"]
  by (simp add: advance_def unat_sub word_le_nat_alt unat_ucast_small)

lemma unat_add_small: "unat (x :: usize) + unat y < 2 ^ 32 \<Longrightarrow> unat (x + y) = unat x + unat y"
  by (simp add: unat_word_ariths)

lemma advance_advance:
  assumes "unat n + unat m < 2 ^ 32"
  shows "advance (advance b n) m = advance b (n + m)"
proof -
  have nm: "unat (n + m) = unat n + unat m" using assms by (rule unat_add_small)
  have "unat (ucast (n + m) :: u32) = unat (ucast n + ucast m :: u32)"
    using assms by (simp add: unat_word_ariths unat_ucast_u32 nm)
  then have "(ucast (n + m) :: u32) = ucast n + ucast m" by (rule unsigned_word_eqI)
  moreover have "uint (n + m) = uint n + uint m"
    using nm by (metis of_nat_add uint_nat)
  ultimately show ?thesis by (simp add: advance_def)
qed

text \<open>
  Awaiting such a future: it is polled until it is ready, and other code runs between two
  polls. \<open>None\<close>: not ready after these polls.
\<close>

fun awaits ::
  "('f \<Rightarrow> waker \<Rightarrow> 's \<Rightarrow> ('r poll \<times> 'f) option \<times> 's) \<Rightarrow> (waker \<times> ('s \<Rightarrow> 's)) list \<Rightarrow> 'f \<Rightarrow> 's \<Rightarrow> ('r \<times> 's) option"
  where
  "awaits poll [] f s = None"
| "awaits poll ((k, e) # ks) f s =
     (case poll f k s of
        (None, s') \<Rightarrow> None
      | (Some (Ready r, f'), s') \<Rightarrow> Some (r, s')
      | (Some (Pending, f'), s') \<Rightarrow> awaits poll ks f' (e s'))"

text \<open>The world such a future leaves when it is polled as often as given, unless it answers before.\<close>

fun drives ::
  "('f \<Rightarrow> waker \<Rightarrow> 's \<Rightarrow> ('r poll \<times> 'f) option \<times> 's) \<Rightarrow> (waker \<times> ('s \<Rightarrow> 's)) list \<Rightarrow> 'f \<Rightarrow> 's \<Rightarrow> 's"
  where
  "drives poll [] f s = s"
| "drives poll ((k, e) # ks) f s =
     (case poll f k s of
        (Some (Pending, f'), s') \<Rightarrow> drives poll ks f' (e s')
      | (_, s') \<Rightarrow> s')"

text \<open>A buffer that is the rest of another one from some byte on.\<close>

definition inside :: "wsabuf \<Rightarrow> wsabuf \<Rightarrow> bool" where
  "inside buf b \<longleftrightarrow> buf_ptr buf \<le> buf_ptr b \<and>
     buf_ptr b + int (unat (buf_len b)) = buf_ptr buf + int (unat (buf_len buf))"

locale exact_loop =
  fixes loop :: "nat \<Rightarrow> 'f \<Rightarrow> waker \<Rightarrow> 's \<Rightarrow> (unit res poll \<times> 'f) option \<times> 's"
    and once :: "'f \<Rightarrow> waker \<Rightarrow> 's \<Rightarrow> usize res poll \<times> 's"
    and rest :: "'f \<Rightarrow> wsabuf"
    and whole :: "'f \<Rightarrow> wsabuf"
    and counted :: "'f \<Rightarrow> usize"
    and moved_on :: "wsabuf \<Rightarrow> usize \<Rightarrow> 'f \<Rightarrow> 'f"
  assumes moved_on: "rest (moved_on b n f) = b" "counted (moved_on b n f) = n"
      "whole (moved_on b n f) = whole f" "moved_on b n (moved_on b' n' f) = moved_on b n f"
      "moved_on (rest f) (counted f) f = f"
    and loop_0: "loop 0 f k s = (None, s)"
    and loop_Suc: "loop (Suc fuel) f k s =
      (case once f k s of
         (Pending, s') \<Rightarrow> (Some (Pending, f), s')
       | (Ready (Err e), s') \<Rightarrow> (Some (Ready (Err e), f), s')
       | (Ready (Fault x), s') \<Rightarrow> (Some (Ready (Fault x), f), s')
       | (Ready (Ok n), s') \<Rightarrow>
           if counted f + n = ucast (buf_len (whole f))
           then (Some (Ready (Ok ()), moved_on (rest f) (counted f + n) f), s')
           else loop fuel (moved_on (advance (rest f) n) (counted f + n) f) k s')"
begin

text \<open>How much is left; the loop has not run over the end.\<close>

definition within :: "'f \<Rightarrow> bool" where
  "within f \<longleftrightarrow> unat (counted f) \<le> unat (buf_len (whole f)) \<and> rest f = advance (whole f) (counted f)"

definition left_over :: "'f \<Rightarrow> nat" where
  "left_over f = unat (buf_len (whole f)) - unat (counted f)"

text \<open>An answer moves at most what it was asked for.\<close>

definition bounded :: "'f \<Rightarrow> bool" where
  "bounded f \<longleftrightarrow> (\<forall>b n k s m s'. once (moved_on b n f) k s = (Ready (Ok m), s') \<longrightarrow> unat m \<le> unat (buf_len b))"

lemma bounded_once:
  "bounded f \<Longrightarrow> once f k s = (Ready (Ok m), s') \<Longrightarrow> unat m \<le> unat (buf_len (rest f))"
  unfolding bounded_def by (metis moved_on(5))

lemma bounded_moved_on: "bounded f \<Longrightarrow> bounded (moved_on b n f)"
  by (simp add: bounded_def moved_on(4))

lemma within_rest: "within f \<Longrightarrow> unat (buf_len (rest f)) = left_over f"
  by (simp add: within_def left_over_def advance_len)

lemma within_room:
  assumes "within f" and "unat m \<le> unat (buf_len (rest f))"
  shows "unat (counted f) + unat m \<le> unat (buf_len (whole f))"
proof -
  have "unat (counted f) \<le> unat (buf_len (whole f))" using assms(1) by (simp add: within_def)
  moreover have "unat m \<le> left_over f" using assms by (simp add: within_rest)
  ultimately show ?thesis by (simp add: left_over_def)
qed

lemma within_moved_on:
  assumes "within f" and "unat m \<le> unat (buf_len (rest f))"
  shows "within (moved_on (advance (rest f) m) (counted f + m) f)"
    and "unat (counted f + m) = unat (counted f) + unat m"
    and "left_over (moved_on (advance (rest f) m) (counted f + m) f) = left_over f - unat m"
proof -
  have le: "unat (counted f) + unat m \<le> unat (buf_len (whole f))"
    using within_room [OF assms] .
  then have small: "unat (counted f) + unat m < 2 ^ 32"
    using unat_u32_less [of "buf_len (whole f)"] by linarith
  then show sum: "unat (counted f + m) = unat (counted f) + unat m" by (rule unat_add_small)
  show "within (moved_on (advance (rest f) m) (counted f + m) f)"
    using assms(1) le small by (simp add: within_def moved_on sum advance_advance)
  show "left_over (moved_on (advance (rest f) m) (counted f + m) f) = left_over f - unat m"
    by (simp add: left_over_def moved_on sum)
qed

text \<open>If every answer moves something, one call more than there are bytes left is enough fuel.\<close>

lemma loop_returns:
  assumes "within f" and "bounded f" and "left_over f < fuel"
    and "\<And>b n s m s'. once (moved_on b n f) k s = (Ready (Ok m), s') \<Longrightarrow> m \<noteq> 0"
  shows "\<exists>r. fst (loop fuel f k s) = Some r"
  using assms
proof (induction fuel arbitrary: f s)
  case (Suc fuel)
  show ?case
  proof (cases "\<exists>m s'. once f k s = (Ready (Ok m), s')")
    case True
    then obtain m s' where once: "once f k s = (Ready (Ok m), s')" by blast
    let ?f = "moved_on (advance (rest f) m) (counted f + m) f"
    have m: "unat m \<le> unat (buf_len (rest f))" "m \<noteq> 0"
      using bounded_once [OF Suc.prems(2) once] Suc.prems(4) once moved_on(5) by metis+
    then have "0 < unat m" by (simp add: unat_gt_0)
    then have "left_over ?f < fuel"
      using within_moved_on(3) [OF Suc.prems(1) m(1)] within_rest [OF Suc.prems(1)] m(1) Suc.prems(3)
      by linarith
    then have "\<exists>r. fst (loop fuel ?f k s') = Some r"
      using Suc.IH within_moved_on(1) [OF Suc.prems(1) m(1)] bounded_moved_on [OF Suc.prems(2)] Suc.prems(4)
      by (metis moved_on(4))
    then show ?thesis by (auto simp: loop_Suc once)
  next
    case False
    then show ?thesis by (auto simp: loop_Suc split: prod.split poll.split res.split)
  qed
qed simp

text \<open>
  Every buffer the loop hands out is the rest of its own: \<open>asked\<close> lists the buffers handed out.
\<close>

lemma within_inside: "within f \<Longrightarrow> inside (whole f) (rest f)"
  using advance_len [of "counted f" "whole f"]
  by (auto simp: within_def inside_def) (simp_all add: advance_def)

definition asking :: "('s \<Rightarrow> wsabuf list) \<Rightarrow> 'f \<Rightarrow> bool" where
  "asking asked f \<longleftrightarrow> bounded f \<and> (\<forall>b n k s. asked (snd (once (moved_on b n f) k s)) = asked s @ [b])"

lemma asking_moved_on: "asking asked f \<Longrightarrow> asking asked (moved_on b n f)"
  by (simp add: asking_def bounded_moved_on moved_on(4))

lemma asking_once: "asking asked f \<Longrightarrow> asked (snd (once f k s)) = asked s @ [rest f]"
  unfolding asking_def by (metis moved_on(5))

lemma loop_requests:
  assumes "within f" and "asking asked f"
  shows "(\<exists>bs. asked (snd (loop fuel f k s)) = asked s @ bs \<and> (\<forall>b \<in> set bs. inside (whole f) b)) \<and>
    (\<forall>f'. fst (loop fuel f k s) = Some (Pending, f') \<longrightarrow> within f' \<and> asking asked f' \<and> whole f' = whole f)"
  using assms
proof (induction fuel arbitrary: f s)
  case (Suc fuel)
  obtain a t where once: "once f k s = (a, t)" by fastforce
  have asked: "asked t = asked s @ [rest f]" using asking_once [OF Suc.prems(2), of k s] once by simp
  show ?case
  proof (cases "\<exists>m. a = Ready (Ok m) \<and> counted f + m \<noteq> ucast (buf_len (whole f))")
    case True
    then obtain m where a: "a = Ready (Ok m)" "counted f + m \<noteq> ucast (buf_len (whole f))" by blast
    let ?f = "moved_on (advance (rest f) m) (counted f + m) f"
    have "unat m \<le> unat (buf_len (rest f))"
      using Suc.prems(2) once a by (auto simp: asking_def intro: bounded_once)
    from Suc.IH [OF within_moved_on(1) [OF Suc.prems(1) this] asking_moved_on [OF Suc.prems(2)], of t]
    obtain bs where "asked (snd (loop fuel ?f k t)) = asked t @ bs" "\<forall>b \<in> set bs. inside (whole f) b"
      "\<forall>f'. fst (loop fuel ?f k t) = Some (Pending, f') \<longrightarrow> within f' \<and> asking asked f' \<and> whole f' = whole f"
      by (auto simp: moved_on)
    then show ?thesis
      using a within_inside [OF Suc.prems(1)]
      by (auto simp: loop_Suc once asked intro!: exI [of _ "rest f # bs"])
  next
    case False
    then have "snd (loop (Suc fuel) f k s) = t"
      "\<And>f'. fst (loop (Suc fuel) f k s) = Some (Pending, f') \<Longrightarrow> f' = f"
      by (auto simp: loop_Suc once split: poll.splits res.splits if_splits)
    then show ?thesis using Suc.prems within_inside [OF Suc.prems(1)] asked
      by (auto intro!: exI [of _ "[rest f]"])
  qed
qed (simp add: loop_0)

lemma drives_requests:
  assumes "within f" and "asking asked f" and "\<forall>(k, e) \<in> set ks. \<forall>s. asked (e s) = asked s"
  shows "\<exists>bs. asked (drives (loop fuel) ks f s) = asked s @ bs \<and> (\<forall>b \<in> set bs. inside (whole f) b)"
  using assms
proof (induction ks arbitrary: f s)
  case (Cons x ks)
  obtain k e where x: "x = (k, e)" by fastforce
  obtain bs where bs: "asked (snd (loop fuel f k s)) = asked s @ bs" "\<forall>b \<in> set bs. inside (whole f) b"
    using loop_requests [OF Cons.prems(1,2), of fuel k s] by blast
  show ?case
  proof (cases "\<exists>f'. fst (loop fuel f k s) = Some (Pending, f')")
    case True
    then obtain f' where f': "fst (loop fuel f k s) = Some (Pending, f')" by blast
    then have "within f'" "asking asked f'" "whole f' = whole f"
      using loop_requests [OF Cons.prems(1,2), of fuel k s] by auto
    with Cons.IH [of f' "e (snd (loop fuel f k s))"] Cons.prems(3) obtain cs where
      "asked (drives (loop fuel) ks f' (e (snd (loop fuel f k s)))) = asked s @ bs @ cs"
      "\<forall>b \<in> set cs. inside (whole f) b"
      using bs by (auto simp: x)
    then show ?thesis using bs f'
      by (intro exI [of _ "bs @ cs"]) (auto simp: x split: prod.split)
  next
    case False
    then have "drives (loop fuel) (x # ks) f s = snd (loop fuel f k s)"
      by (auto simp: x split: prod.splits option.splits poll.splits)
    then show ?thesis using bs by auto
  qed
qed auto

text \<open>Against an answer of zero bytes, again and again, it never returns.\<close>

lemma loop_never_returns:
  assumes "counted f \<noteq> ucast (buf_len (whole f))"
    and "\<And>b n s. once (moved_on b n f) k s = (Ready (Ok 0), nxt s)"
  shows "fst (loop fuel f k s) = None"
  using assms
proof (induction fuel arbitrary: f s)
  case (Suc fuel)
  have "once f k s = (Ready (Ok 0), nxt s)"
    using Suc.prems(2) [of "rest f" "counted f" s] by (simp add: moved_on)
  then show ?case using Suc by (simp add: loop_Suc moved_on)
qed (simp add: loop_0)

text \<open>
  A relation between the future and the world that the answers keep: an answer of bytes moves the
  future on, a pending one leaves it as it is.
\<close>

definition coupled :: "('f \<Rightarrow> 's \<Rightarrow> bool) \<Rightarrow> bool" where
  "coupled J \<longleftrightarrow> (\<forall>f k s r t. within f \<longrightarrow> J f s \<longrightarrow> once f k s = (r, t) \<longrightarrow>
     (case r of
        Ready (Ok m) \<Rightarrow> unat m \<le> unat (buf_len (rest f)) \<and> J (moved_on (advance (rest f) m) (counted f + m) f) t
      | Pending \<Rightarrow> J f t
      | _ \<Rightarrow> True))"

lemma coupledD:
  "coupled J \<Longrightarrow> within f \<Longrightarrow> J f s \<Longrightarrow> once f k s = (r, t) \<Longrightarrow>
   (case r of
      Ready (Ok m) \<Rightarrow> unat m \<le> unat (buf_len (rest f)) \<and> J (moved_on (advance (rest f) m) (counted f + m) f) t
    | Pending \<Rightarrow> J f t
    | _ \<Rightarrow> True)"
  unfolding coupled_def by blast

text \<open>The whole buffer has been counted.\<close>

definition all_done :: "'f \<Rightarrow> bool" where
  "all_done f \<longleftrightarrow> within f \<and> unat (counted f) = unat (buf_len (whole f))"

lemma loop_coupled:
  assumes "coupled J" and "within f" and "J f s" and "loop fuel f k s = (Some (r, f'), t)"
  shows "(r = Pending \<longrightarrow> within f' \<and> J f' t \<and> whole f' = whole f) \<and>
    (r = Ready (Ok ()) \<longrightarrow> (\<exists>g. all_done g \<and> J g t \<and> whole g = whole f))"
  using assms(2-)
proof (induction fuel arbitrary: f s)
  case (Suc fuel)
  obtain a u where once: "once f k s = (a, u)" by fastforce
  note law = coupledD [OF assms(1) Suc.prems(1,2) once]
  show ?case
  proof (cases "\<exists>m. a = Ready (Ok m)")
    case True
    then obtain m where a: "a = Ready (Ok m)" by blast
    let ?f = "moved_on (advance (rest f) m) (counted f + m) f"
    have m: "unat m \<le> unat (buf_len (rest f))" "J ?f u" using law by (simp_all add: a)
    note on = within_moved_on [OF Suc.prems(1) m(1)]
    show ?thesis
    proof (cases "counted f + m = ucast (buf_len (whole f))")
      case True
      then have "all_done ?f" using on(1) by (simp add: all_done_def moved_on)
      then show ?thesis using Suc.prems(3) m(2) True by (auto simp: loop_Suc once a moved_on)
    next
      case False
      then have "loop fuel ?f k u = (Some (r, f'), t)" using Suc.prems(3) by (simp add: loop_Suc once a)
      from Suc.IH [OF on(1) m(2) this] show ?thesis by (simp add: moved_on)
    qed
  next
    case False
    then show ?thesis using law Suc.prems once
      by (auto simp: loop_Suc split: poll.splits res.splits)
  qed
qed (simp add: loop_0)

lemma awaits_coupled:
  assumes "coupled J" and "within f" and "J f s" and "awaits (loop fuel) ks f s = Some (Ok (), t)"
    and "\<forall>(k, e) \<in> set ks. \<forall>f s. within f \<longrightarrow> J f s \<longrightarrow> J f (e s)"
  shows "\<exists>g. all_done g \<and> J g t \<and> whole g = whole f"
  using assms(2-)
proof (induction ks arbitrary: f s)
  case (Cons x ks)
  obtain k e where x: "x = (k, e)" by fastforce
  obtain r f' u where step: "loop fuel f k s = (Some (r, f'), u)"
    using Cons.prems(3) by (auto simp: x split: prod.splits option.splits)
  note loop = loop_coupled [OF assms(1) Cons.prems(1,2) step]
  show ?case
  proof (cases r)
    case (Ready v)
    then show ?thesis using Cons.prems(3) loop by (simp add: x step)
  next
    case Pending
    then have "awaits (loop fuel) ks f' (e u) = Some (Ok (), t)" "J f' (e u)"
      using Cons.prems(3,4) loop by (auto simp: x step)
    then show ?thesis using Cons.IH [of f' "e u"] Cons.prems(4) loop Pending by simp
  qed
qed simp

end

text \<open>
  What an answer did to the world, as a relation: \<open>moved b n s t\<close> says that the first \<open>n\<close> bytes
  of the buffer were transferred. Transfers of consecutive pieces compose.
\<close>

locale exact_transfer = exact_loop loop once rest whole counted moved_on
  for loop :: "nat \<Rightarrow> 'f \<Rightarrow> waker \<Rightarrow> 's \<Rightarrow> (unit res poll \<times> 'f) option \<times> 's"
    and once rest whole counted moved_on +
  fixes moved :: "wsabuf \<Rightarrow> nat \<Rightarrow> 's \<Rightarrow> 's \<Rightarrow> bool"
  assumes moved_append: "unat n + m \<le> unat (buf_len b) \<Longrightarrow> moved b (unat n) s t \<Longrightarrow>
      moved (advance b n) m t u \<Longrightarrow> moved b (unat n + m) s u"
begin

text \<open>The law an answer obeys.\<close>

definition lawful :: "'f \<Rightarrow> bool" where
  "lawful f \<longleftrightarrow> (\<forall>b n k s r s'. once (moved_on b n f) k s = (r, s') \<longrightarrow>
     (case r of
        Ready (Ok m) \<Rightarrow> unat m \<le> unat (buf_len b) \<and> moved b (unat m) s s'
      | _ \<Rightarrow> moved b 0 s s'))"

lemma lawful_moved_on: "lawful f \<Longrightarrow> lawful (moved_on b n f)"
  by (simp add: lawful_def moved_on(4))

lemma lawful_bounded: "lawful f \<Longrightarrow> bounded f"
  by (fastforce simp: lawful_def bounded_def)

lemma lawful_once:
  assumes "lawful f" and "once f k s = (r, s')"
  shows "case r of Ready (Ok m) \<Rightarrow> unat m \<le> unat (buf_len (rest f)) \<and> moved (rest f) (unat m) s s'
      | _ \<Rightarrow> moved (rest f) 0 s s'"
proof -
  have "once (moved_on (rest f) (counted f) f) k s = (r, s')" using assms(2) by (simp add: moved_on(5))
  then show ?thesis using assms(1) unfolding lawful_def by blast
qed

lemma moved_piece:
  assumes "within f" and "moved (whole f) (unat (counted f)) s0 s"
    and "unat m \<le> unat (buf_len (rest f))" and "moved (rest f) (unat m) s s'"
  shows "moved (whole f) (unat (counted f) + unat m) s0 s'"
proof -
  have "rest f = advance (whole f) (counted f)" using assms(1) by (simp add: within_def)
  moreover have "unat (counted f) + unat m \<le> unat (buf_len (whole f))"
    using within_room [OF assms(1,3)] .
  ultimately show ?thesis using moved_append [of "counted f" "unat m" "whole f" s0 s s'] assms(2,4)
    by simp
qed

lemma transfer_coupled: "coupled (\<lambda>f s. lawful f \<and> moved (whole f) (unat (counted f)) s0 s)"
  unfolding coupled_def
proof (intro allI impI, elim conjE)
  fix f k s r t
  assume f: "within f" "lawful f" "moved (whole f) (unat (counted f)) s0 s" and once: "once f k s = (r, t)"
  note law = lawful_once [OF f(2) once] and piece = moved_piece [OF f(1,3)]
  show "case r of
      Ready (Ok m) \<Rightarrow> unat m \<le> unat (buf_len (rest f)) \<and>
        lawful (moved_on (advance (rest f) m) (counted f + m) f) \<and>
        moved (whole (moved_on (advance (rest f) m) (counted f + m) f))
          (unat (counted (moved_on (advance (rest f) m) (counted f + m) f))) s0 t
    | Pending \<Rightarrow> lawful f \<and> moved (whole f) (unat (counted f)) s0 t
    | _ \<Rightarrow> True"
    using law f(2) piece [of 0 t] piece within_moved_on(2) [OF f(1)]
    by (auto simp: moved_on lawful_moved_on split: poll.splits res.splits)
qed

text \<open>A future that is awaited to success has transferred the whole buffer.\<close>

lemma awaits_transfers:
  assumes "within f" and "lawful f" and "moved (whole f) (unat (counted f)) s0 s"
    and "awaits (loop fuel) ks f s = Some (Ok (), s')"
    and "\<forall>(k, e) \<in> set ks. \<forall>b n u v. moved b n u v \<longrightarrow> moved b n u (e v)"
  shows "moved (whole f) (unat (buf_len (whole f))) s0 s'"
proof -
  have "\<forall>(k, e) \<in> set ks. \<forall>f s. within f \<longrightarrow> (lawful f \<and> moved (whole f) (unat (counted f)) s0 s) \<longrightarrow>
      (lawful f \<and> moved (whole f) (unat (counted f)) s0 (e s))"
    using assms(5) by auto
  from awaits_coupled [OF transfer_coupled assms(1) _ assms(4) this] assms(2,3)
  show ?thesis by (auto simp: all_done_def)
qed

end

end
