(* ===== verification/Async_Read.thy ===== *)
theory Async_Read
  imports Io_Buf
begin

text \<open>
  \<open>src/io/read/mod.rs\<close> and \<open>src/io/read/ext.rs\<close>: the trait \<open>AsyncRead\<close> as a record of its two
  operations on a world \<open>'s\<close>, its forwarding implementations, and the futures of
  \<open>AsyncReadExt\<close>. An operation that may wait for another thread answers \<open>None\<close> while it waits.
\<close>

section \<open>Operations\<close>

record 's async_read =
  poll_read :: "waker \<Rightarrow> wsabuf \<Rightarrow> ('s, usize res poll) state"
  cancel_read :: "bool \<Rightarrow> ('s, unit res option) state"

text \<open>\<open>AsyncRead\<close> for \<open>Pin<P>\<close> and for \<open>&mut T\<close>: both forward to what they point to.\<close>

definition pin_async_read :: "'s async_read \<Rightarrow> 's async_read" where
  "pin_async_read io = \<lparr>poll_read = (\<lambda>cx buf. poll_read io cx buf), cancel_read = (\<lambda>wait. cancel_read io wait)\<rparr>"

definition ref_async_read :: "'s async_read \<Rightarrow> 's async_read" where
  "ref_async_read io = \<lparr>poll_read = (\<lambda>cx buf. poll_read io cx buf), cancel_read = (\<lambda>wait. cancel_read io wait)\<rparr>"

record 's chain =
  first :: "'s async_read"
  chain_next :: "'s async_read"
  chained :: bool

definition chain_new :: "'s async_read \<Rightarrow> 's async_read \<Rightarrow> 's chain" where
  "chain_new self nxt = \<lparr>first = self, chain_next = nxt, chained = False\<rparr>"

text \<open>\<open>poll_read\<close> of a chain never assigns \<open>chained\<close>, so it returns no new chain.\<close>

definition chain_poll_read :: "'s chain \<Rightarrow> waker \<Rightarrow> wsabuf \<Rightarrow> ('s, usize res poll) state" where
  "chain_poll_read self cx buf =
     (if \<not> chained self then do {
        poll \<leftarrow> poll_read (first self) cx buf;
        if poll = Ready (Ok 0) then poll_read (chain_next self) cx buf
        else State_Monad.return poll
      } else poll_read (chain_next self) cx buf)"

definition chain_cancel_read :: "'s chain \<Rightarrow> bool \<Rightarrow> ('s, unit res option) state" where
  "chain_cancel_read self wait =
     (if \<not> chained self then cancel_read (first self) wait
      else cancel_read (chain_next self) wait)"

definition chain_async_read :: "'s chain \<Rightarrow> 's async_read" where
  "chain_async_read self = \<lparr>poll_read = chain_poll_read self, cancel_read = chain_cancel_read self\<rparr>"

record 's read =
  read_io :: "'s async_read"
  read_buf :: wsabuf

definition read_new :: "'s async_read \<Rightarrow> wsabuf \<Rightarrow> 's read" where
  "read_new self buf = \<lparr>read_io = self, read_buf = buf\<rparr>"

definition read_poll :: "'s read \<Rightarrow> waker \<Rightarrow> ('s, usize res poll) state" where
  "read_poll self cx = poll_read (ref_async_read (read_io self)) cx (read_buf self)"

definition read_cancel :: "'s read \<Rightarrow> ('s, unit res option) state" where
  "read_cancel self = cancel_read (ref_async_read (read_io self)) False"

text \<open>\<open>.ok()\<close> drops an error; a panic goes through.\<close>

definition read_drop :: "'s read \<Rightarrow> ('s, unit res option) state" where
  "read_drop self = do {
     r \<leftarrow> cancel_read (ref_async_read (read_io self)) True;
     State_Monad.return (map_option (map_res (\<lambda>_. ()) \<circ> res_ok) r) }"

record 's read_exact =
  re_read :: "'s read"
  re_buf :: wsabuf
  re_n :: usize

definition read_exact_new :: "'s async_read \<Rightarrow> wsabuf \<Rightarrow> 's read_exact" where
  "read_exact_new self buf = \<lparr>re_read = read_new self buf, re_buf = buf, re_n = 0\<rparr>"

text \<open>
  The poll calls itself. The first argument bounds the number of calls: \<open>None\<close> is a poll that
  is still running after as many.
\<close>

primrec read_exact_poll ::
  "nat \<Rightarrow> 's read_exact \<Rightarrow> waker \<Rightarrow> ('s, (unit res poll \<times> 's read_exact) option) state" where
  "read_exact_poll 0 = (\<lambda>self cx. State_Monad.return None)"
| "read_exact_poll (Suc fuel) = (\<lambda>self cx. do {
     poll \<leftarrow> read_poll (re_read self) cx;
     case poll of
       Ready (Ok n) \<Rightarrow>
         (let self = self\<lparr>re_n := re_n self + n\<rparr> in
          if re_n self = ucast (buf_len (re_buf self)) then State_Monad.return (Some (Ready (Ok ()), self))
          else
            (let b = read_buf (re_read self);
                 b = b\<lparr>buf_len := buf_len b - ucast n\<rparr>;
                 b = b\<lparr>buf_ptr := buf_ptr b + uint n\<rparr>
             in read_exact_poll fuel (self\<lparr>re_read := (re_read self)\<lparr>read_buf := b\<rparr>\<rparr>) cx))
     | Ready (Err err) \<Rightarrow> State_Monad.return (Some (Ready (Err err), self))
     | Ready (Fault f) \<Rightarrow> State_Monad.return (Some (Ready (Fault f), self))
     | Pending \<Rightarrow> State_Monad.return (Some (Pending, self)) })"

definition read_exact_cancel :: "'s read_exact \<Rightarrow> ('s, unit res option) state" where
  "read_exact_cancel self = read_cancel (re_read self)"

section \<open>Reading into memory\<close>

text \<open>
  What a reader is supposed to do, over a view of the world as the memory the program may look
  at and the input still to come: the first \<open>n\<close> bytes of the input move to the start of the
  buffer. (The program may not look at a buffer it has handed over until the poll is ready.)
\<close>

definition read_moved ::
  "('s \<Rightarrow> ptr \<Rightarrow> 'b) \<Rightarrow> ('s \<Rightarrow> 'b list) \<Rightarrow> wsabuf \<Rightarrow> nat \<Rightarrow> 's \<Rightarrow> 's \<Rightarrow> bool" where
  "read_moved mem inp b n s t \<longleftrightarrow>
     n \<le> length (inp s) \<and> inp t = drop n (inp s) \<and>
     (\<forall>a. mem t a = (if buf_ptr b \<le> a \<and> a < buf_ptr b + int n
                     then inp s ! nat (a - buf_ptr b) else mem s a))"

text \<open>The contract of \<open>poll_read\<close>.\<close>

definition reads :: "('s \<Rightarrow> ptr \<Rightarrow> 'b) \<Rightarrow> ('s \<Rightarrow> 'b list) \<Rightarrow> 's async_read \<Rightarrow> bool" where
  "reads mem inp io \<longleftrightarrow> (\<forall>b k s r s'. run_state (poll_read io k b) s = (r, s') \<longrightarrow>
     (case r of
        Ready (Ok m) \<Rightarrow> unat m \<le> unat (buf_len b) \<and> read_moved mem inp b (unat m) s s'
      | _ \<Rightarrow> read_moved mem inp b 0 s s'))"

text \<open>An answer of no bytes means the end of the input, or an empty buffer.\<close>

definition ends :: "('s \<Rightarrow> 'b list) \<Rightarrow> 's async_read \<Rightarrow> bool" where
  "ends inp io \<longleftrightarrow> (\<forall>b k s s'. run_state (poll_read io k b) s = (Ready (Ok 0), s') \<longrightarrow>
     buf_len b = 0 \<or> inp s = [])"

text \<open>A reader that answers every poll with bytes or the end of the input, at once.\<close>

definition eager :: "'s async_read \<Rightarrow> bool" where
  "eager io \<longleftrightarrow> (\<forall>b k s. \<exists>m. fst (run_state (poll_read io k b) s) = Ready (Ok m))"

lemma read_moved_0 [simp]: "read_moved mem inp b 0 s s"
  by (auto simp: read_moved_def)

lemma read_moved_append:
  assumes "read_moved mem inp b (unat n) s t" and "read_moved mem inp (advance b n) m t u"
  shows "read_moved mem inp b (unat n + m) s u"
proof -
  define d where "d = unat n"
  have [simp]: "buf_ptr (advance b n) = buf_ptr b + int d"
    by (simp add: advance_def d_def)
  have inp: "inp t = drop d (inp s)" "d \<le> length (inp s)"
    using assms(1) by (simp_all add: read_moved_def d_def)
  have "inp t ! nat (a - (buf_ptr b + int d)) = inp s ! nat (a - buf_ptr b)"
    if "buf_ptr b + int d \<le> a" for a
  proof -
    have "d + nat (a - (buf_ptr b + int d)) = nat (a - buf_ptr b)" using that by linarith
    with inp show ?thesis by simp
  qed
  then show ?thesis using assms unfolding read_moved_def d_def [symmetric] by (auto simp: add.commute)
qed

definition re_moved_on :: "wsabuf \<Rightarrow> usize \<Rightarrow> 's read_exact \<Rightarrow> 's read_exact" where
  "re_moved_on b n f = f\<lparr>re_n := n, re_read := (re_read f)\<lparr>read_buf := b\<rparr>\<rparr>"

interpretation re: exact_transfer
  "\<lambda>fuel f k. run_state (read_exact_poll fuel f k)" "\<lambda>f k. run_state (read_poll (re_read f) k)"
  "\<lambda>f. read_buf (re_read f)" re_buf re_n re_moved_on "read_moved mem inp"
  for mem :: "'s \<Rightarrow> ptr \<Rightarrow> 'b" and inp :: "'s \<Rightarrow> 'b list"
proof
  show "run_state (read_exact_poll (Suc fuel) f k) s =
      (case run_state (read_poll (re_read f) k) s of
         (Pending, s') \<Rightarrow> (Some (Pending, f), s')
       | (Ready (Err e), s') \<Rightarrow> (Some (Ready (Err e), f), s')
       | (Ready (Fault x), s') \<Rightarrow> (Some (Ready (Fault x), f), s')
       | (Ready (Ok n), s') \<Rightarrow>
           if re_n f + n = ucast (buf_len (re_buf f))
           then (Some (Ready (Ok ()), re_moved_on (read_buf (re_read f)) (re_n f + n) f), s')
           else run_state (read_exact_poll fuel (re_moved_on (advance (read_buf (re_read f)) n) (re_n f + n) f) k) s')"
    for fuel f k s
    by (simp add: re_moved_on_def advance_def Let_def split: prod.split poll.split res.split)
qed (simp_all add: re_moved_on_def read_moved_append)


lemma read_exact_new_within: "re.within (read_exact_new io buf)"
  by (simp add: re.within_def read_exact_new_def read_new_def)

lemma reads_lawful: "reads mem inp io \<Longrightarrow> re.lawful TYPE(_) mem inp (read_exact_new io buf)"
  unfolding re.lawful_def
  by (simp add: reads_def re_moved_on_def read_exact_new_def read_new_def read_poll_def ref_async_read_def)

text \<open>The first and the second of two inputs one after the other.\<close>

lemma reads_run:
  "reads mem inp io \<Longrightarrow> run_state (poll_read io k b) s = (r, s') \<Longrightarrow>
   (case r of Ready (Ok m) \<Rightarrow> unat m \<le> unat (buf_len b) \<and> read_moved mem inp b (unat m) s s'
      | _ \<Rightarrow> read_moved mem inp b 0 s s')"
  unfolding reads_def by blast

lemma read_moved_at_end:
  "read_moved mem inp1 b n s t \<Longrightarrow> inp2 t = inp2 s \<Longrightarrow> read_moved mem (\<lambda>s. inp1 s @ inp2 s) b n s t"
  by (auto simp: read_moved_def nth_append)

lemma read_moved_at_start:
  "read_moved mem inp2 b n s t \<Longrightarrow> inp1 s = [] \<Longrightarrow> inp1 t = [] \<Longrightarrow>
   read_moved mem (\<lambda>s. inp1 s @ inp2 s) b n s t"
  by (auto simp: read_moved_def)

lemma read_moved_0_iff: "read_moved mem inp b 0 s t \<longleftrightarrow> inp t = inp s \<and> mem t = mem s"
  by (auto simp: read_moved_def fun_eq_iff)

lemma read_moved_from: "read_moved mem inp b 0 s t \<Longrightarrow> read_moved mem inp b n t u \<Longrightarrow> read_moved mem inp b n s u"
  by (simp add: read_moved_def)

section \<open>Properties\<close>

text \<open>
  Property C7: \<open>read_exact\<close> reads exactly its buffer. If the reader keeps its contract and the code
  that runs between the polls leaves the buffer and the input alone, then awaiting
  \<open>read_exact(buf)\<close> to success, in however many reads and polls, moves the next \<open>len\<close> bytes of
  the input to the buffer, in order, and changes no other memory.
\<close>

theorem read_exact_fills:
  assumes "reads mem inp io"
    and "\<forall>(k, e) \<in> set ks. \<forall>s. mem (e s) = mem s \<and> inp (e s) = inp s"
    and "awaits (\<lambda>f k. run_state (read_exact_poll fuel f k)) ks (read_exact_new io buf) s = Some (Ok (), s')"
  shows "read_moved mem inp buf (unat (buf_len buf)) s s'"
proof -
  have "read_moved mem inp buf (unat (re_n (read_exact_new io buf))) s s"
    by (simp add: read_exact_new_def)
  moreover have "re_buf (read_exact_new io buf) = buf" by (simp add: read_exact_new_def)
  moreover have "\<forall>(k, e) \<in> set ks. \<forall>b n u v. read_moved mem inp b n u v \<longrightarrow> read_moved mem inp b n u (e v)"
    using assms(2) by (fastforce simp: read_moved_def)
  ultimately show ?thesis
    using re.awaits_transfers [OF read_exact_new_within reads_lawful [OF assms(1)] _ assms(3), of s] by simp
qed

text \<open>
  Property: a poll of \<open>read_exact\<close> returns when the reader makes progress: if no read answers
  with zero bytes, one recursive call more than the buffer has bytes is enough.
\<close>

theorem read_exact_returns:
  assumes "reads mem inp io" and "\<forall>b s s'. run_state (poll_read io k b) s \<noteq> (Ready (Ok 0), s')"
    and "unat (buf_len buf) < fuel"
  shows "\<exists>r. fst (run_state (read_exact_poll fuel (read_exact_new io buf) k) s) = Some r"
proof (rule re.loop_returns [OF read_exact_new_within re.lawful_bounded [OF reads_lawful [OF assms(1)]]])
  show "re.left_over (read_exact_new io buf) < fuel"
    using assms(3) by (simp add: re.left_over_def read_exact_new_def)
  show "m \<noteq> 0" if "run_state (read_poll (re_read (re_moved_on b n (read_exact_new io buf))) k) s = (Ready (Ok m), s')"
    for b n s m s'
    using that assms(2)
    by (auto simp: read_poll_def re_moved_on_def read_exact_new_def read_new_def ref_async_read_def)
qed

text \<open>
  Property C29: \<open>read_exact\<close> stays in its buffer. However often it is polled, and whether it succeeds,
  fails or is abandoned, every buffer it hands to the reader begins inside the caller's buffer
  and ends where the caller's buffer ends, as long as no answer claims more bytes than were
  asked for. (\<open>asked\<close> lists the buffers a reader has been given.)
\<close>

theorem read_exact_in_bounds:
  assumes "\<forall>b k s m s'. run_state (poll_read io k b) s = (Ready (Ok m), s') \<longrightarrow> unat m \<le> unat (buf_len b)"
    and "\<forall>b k s. asked (snd (run_state (poll_read io k b) s)) = asked s @ [b]"
    and "\<forall>(k, e) \<in> set ks. \<forall>s. asked (e s) = asked s"
  shows "\<exists>bs. asked (drives (\<lambda>f k. run_state (read_exact_poll fuel f k)) ks (read_exact_new io buf) s) = asked s @ bs \<and>
    (\<forall>b \<in> set bs. inside buf b)"
proof -
  have "re.asking asked (read_exact_new io buf)"
    using assms(1,2) unfolding re.asking_def re.bounded_def
    by (simp add: read_poll_def re_moved_on_def read_exact_new_def read_new_def ref_async_read_def)
  from re.drives_requests [OF read_exact_new_within this assms(3), of fuel s]
  show ?thesis by (simp add: read_exact_new_def)
qed

text \<open>
  Property C36: at the end of the input a poll of \<open>read_exact\<close> never returns. If the reader
  answers every read with zero bytes and the buffer is not empty, the poll keeps calling itself,
  whatever the number of calls allowed.
\<close>

theorem read_exact_at_end_diverges:
  assumes "\<forall>b s. run_state (poll_read io k b) s = (Ready (Ok 0), s)" and "buf_len buf \<noteq> 0"
  shows "fst (run_state (read_exact_poll fuel (read_exact_new io buf) k) s) = None"
proof (rule re.loop_never_returns [where nxt = "\<lambda>s. s"])
  have "unat (buf_len buf) \<noteq> 0" using assms(2) by (simp add: unat_eq_0)
  then have "(ucast (buf_len buf) :: usize) \<noteq> 0" by (metis unat_0 unat_ucast_usize)
  then show "re_n (read_exact_new io buf) \<noteq> ucast (buf_len (re_buf (read_exact_new io buf)))"
    by (simp add: read_exact_new_def)
  show "run_state (read_poll (re_read (re_moved_on b n (read_exact_new io buf))) k) s = (Ready (Ok 0), s)"
    for b n s
    using assms(1)
    by (simp add: read_poll_def re_moved_on_def read_exact_new_def read_new_def ref_async_read_def)
qed

text \<open>The contract of the chain, from the contracts of its parts.\<close>

lemma chain_poll_cases:
  assumes "run_state (chain_poll_read (chain_new one two) k b) s = (r, s')"
  obtains (first) "r \<noteq> Ready (Ok 0)" "run_state (poll_read one k b) s = (r, s')"
    | (second) s1 where "run_state (poll_read one k b) s = (Ready (Ok 0), s1)" "run_state (poll_read two k b) s1 = (r, s')"
  using assms by (fastforce simp: chain_poll_read_def chain_new_def split: prod.splits if_splits)

lemma chain_reads:
  assumes one: "reads mem inp1 one" "ends inp1 one" and two: "reads mem inp2 two"
    and apart: "\<forall>k b s. inp2 (snd (run_state (poll_read one k b) s)) = inp2 s"
      "\<forall>k b s. inp1 (snd (run_state (poll_read two k b) s)) = inp1 s"
  shows "reads mem (\<lambda>s. inp1 s @ inp2 s) (chain_async_read (chain_new one two))"
proof -
  let ?inp = "\<lambda>s. inp1 s @ inp2 s"
  have "case r of Ready (Ok m) \<Rightarrow> unat m \<le> unat (buf_len b) \<and> read_moved mem ?inp b (unat m) s s'
      | _ \<Rightarrow> read_moved mem ?inp b 0 s s'"
    if "run_state (chain_poll_read (chain_new one two) k b) s = (r, s')" for b k s r s'
    using that
  proof (cases rule: chain_poll_cases)
    case first
    have "inp2 s' = inp2 s" using apart(1) first(2) by (metis snd_conv)
    then show ?thesis
      using reads_run [OF one(1) first(2)] by (auto simp: read_moved_at_end split: poll.splits res.splits)
  next
    case (second s1)
    have inp2: "inp2 s1 = inp2 s" using apart(1) second(1) by (metis snd_conv)
    have inp1: "inp1 s' = inp1 s1" using apart(2) second(2) by (metis snd_conv)
    have first: "read_moved mem inp1 b 0 s s1" using reads_run [OF one(1) second(1)] by simp
    then have start: "read_moved mem ?inp b 0 s s1" using inp2 by (rule read_moved_at_end)
    have "inp1 s1 = [] \<or> buf_len b = 0"
      using one(2) first second(1) unfolding ends_def by (fastforce simp: read_moved_def)
    then show ?thesis
      using reads_run [OF two second(2)] inp1 start
      by (auto simp: read_moved_0_iff read_moved_at_start split: poll.splits res.splits
          intro!: read_moved_from [OF start])
  qed
  then show ?thesis by (simp add: reads_def chain_async_read_def)
qed

lemma chain_ends:
  assumes one: "ends inp1 one" "reads mem inp1 one" and two: "ends inp2 two"
    and apart: "\<forall>k b s. inp2 (snd (run_state (poll_read one k b) s)) = inp2 s"
  shows "ends (\<lambda>s. inp1 s @ inp2 s) (chain_async_read (chain_new one two))"
proof -
  have "buf_len b = 0 \<or> inp1 s @ inp2 s = []"
    if "run_state (chain_poll_read (chain_new one two) k b) s = (Ready (Ok 0), s')" for b k s s'
    using that
  proof (cases rule: chain_poll_cases)
    case (second s1)
    then have "inp2 s1 = inp2 s" using apart by (metis snd_conv)
    then show ?thesis using second one(1) two unfolding ends_def by fastforce
  qed simp
  then show ?thesis unfolding ends_def by (simp add: chain_async_read_def)
qed

lemma chain_eager: "eager one \<Longrightarrow> eager two \<Longrightarrow> eager (chain_async_read (chain_new one two))"
  unfolding eager_def
  by (simp add: chain_async_read_def chain_poll_read_def chain_new_def split: prod.split) (metis fst_conv)

text \<open>
  Property C30: a chain reads one input after the other, to the end of both. If both readers keep
  their contract and answer zero bytes only at their ends (or for an empty buffer), and neither
  touches the input of the other, then the chain keeps the contract of a reader whose input is
  the two inputs one after the other, and answers zero bytes only at the end of both; and a chain
  of readers that always have an answer always has one.
\<close>

theorem chain_concatenates:
  assumes "reads mem inp1 one" and "ends inp1 one" and "reads mem inp2 two" and "ends inp2 two"
    and "\<forall>k b s. inp2 (snd (run_state (poll_read one k b) s)) = inp2 s"
    and "\<forall>k b s. inp1 (snd (run_state (poll_read two k b) s)) = inp1 s"
  shows "reads mem (\<lambda>s. inp1 s @ inp2 s) (chain_async_read (chain_new one two)) \<and>
    ends (\<lambda>s. inp1 s @ inp2 s) (chain_async_read (chain_new one two)) \<and>
    (eager one \<longrightarrow> eager two \<longrightarrow> eager (chain_async_read (chain_new one two)))"
  using chain_reads [OF assms(1,2,3,5,6)] chain_ends [OF assms(2,1,4,5)] chain_eager by blast

section \<open>A reader to evaluate on\<close>

text \<open>Memory and two inputs; reader \<open>j\<close> delivers its input byte by byte, and answers \<open>none\<close> at its end.\<close>

type_synonym sample_world = "(ptr \<Rightarrow> nat) \<times> (bool \<Rightarrow> nat list)"

definition sample_reader :: "usize res poll \<Rightarrow> bool \<Rightarrow> sample_world async_read" where
  "sample_reader none j = \<lparr>
     poll_read = (\<lambda>k b. State (\<lambda>(m, i).
       if i j = [] \<or> buf_len b = 0 then (none, (m, i))
       else (Ready (Ok 1), (m(buf_ptr b := List.hd (i j)), i(j := tl (i j)))))),
     cancel_read = (\<lambda>wait. State_Monad.return (Some (Ok ())))\<rparr>"

lemma unat_u32_pos: "b \<noteq> (0 :: u32) \<Longrightarrow> 0 < unat b"
  using unat_gt_0 [of b] by simp

lemma sample_reader_reads:
  "none \<in> {Pending, Ready (Ok 0)} \<Longrightarrow> reads fst (\<lambda>s. snd s j) (sample_reader none j)"
  by (auto simp: reads_def sample_reader_def read_moved_def unat_u32_pos drop_Suc hd_conv_nth
      not_le Suc_le_eq split: if_splits)

lemma sample_reader_ends: "ends (\<lambda>s. snd s j) (sample_reader none j)"
  by (auto simp: ends_def sample_reader_def split: if_splits)

theorem read_exact_fills_witness:
  "read_moved fst (\<lambda>s. snd s True) \<lparr>buf_len = 2, buf_ptr = 7\<rparr> 2
     ((\<lambda>_. 0), (\<lambda>_. [])(True := [5 :: nat, 6, 8])) ((\<lambda>_. 0)(7 := 5, 8 := 6), (\<lambda>_. [])(True := [8]))"
proof -
  let ?s = "((\<lambda>_. 0), (\<lambda>_. [])(True := [5, 6, 8]))"
  let ?t = "((\<lambda>_. 0)(7 := 5, 8 := 6), (\<lambda>_. [])(True := [8]))"
  have "awaits (\<lambda>f k. run_state (read_exact_poll 3 f k)) [(1, id)]
      (read_exact_new (sample_reader Pending True) \<lparr>buf_len = 2, buf_ptr = 7\<rparr>) ?s = Some (Ok (), ?t)"
    by (simp add: numeral_3_eq_3 read_exact_new_def read_new_def read_poll_def ref_async_read_def
        sample_reader_def Let_def)
  from read_exact_fills [OF sample_reader_reads _ this] show ?thesis by simp
qed

text \<open>A reader that remembers the buffers it is given, in front of another.\<close>

definition sample_asked :: "(sample_world \<times> wsabuf list) async_read" where
  "sample_asked = \<lparr>
     poll_read = (\<lambda>k b. State (\<lambda>(s, bs).
       let (r, s') = run_state (poll_read (sample_reader Pending True) k b) s in (r, (s', bs @ [b])))),
     cancel_read = (\<lambda>wait. State_Monad.return (Some (Ok ())))\<rparr>"

theorem read_exact_in_bounds_witness:
  "list_all (inside \<lparr>buf_len = 3, buf_ptr = 7\<rparr>)
     (snd (drives (\<lambda>f k. run_state (read_exact_poll 9 f k)) [(1, id), (2, id)]
       (read_exact_new sample_asked \<lparr>buf_len = 3, buf_ptr = 7\<rparr>) (((\<lambda>_. 0), (\<lambda>_. [5, 6])), [])))"
proof -
  have "\<forall>b k s m s'. run_state (poll_read sample_asked k b) s = (Ready (Ok m), s') \<longrightarrow> unat m \<le> unat (buf_len b)"
    by (auto simp: sample_asked_def sample_reader_def unat_u32_pos Suc_le_eq split: if_splits)
  moreover have "\<forall>b k s. snd (snd (run_state (poll_read sample_asked k b) s)) = snd s @ [b]"
    by (auto simp: sample_asked_def split: prod.split)
  ultimately show ?thesis
    using read_exact_in_bounds [of sample_asked snd "[(1, id), (2, id)]" 9 "\<lparr>buf_len = 3, buf_ptr = 7\<rparr>"
        "(((\<lambda>_. 0), (\<lambda>_. [5, 6])), [])"]
    by (auto simp: list_all_iff)
qed

theorem read_exact_returns_witness:
  "\<exists>r. fst (run_state (read_exact_poll 3 (read_exact_new (sample_reader Pending True)
      \<lparr>buf_len = 2, buf_ptr = 7\<rparr>) 1) ((\<lambda>_. 0), (\<lambda>_. [5, 6, 8]))) = Some r"
  by (rule read_exact_returns [OF sample_reader_reads]) (auto simp: sample_reader_def split: if_splits)

theorem read_exact_at_end_diverges_witness:
  "fst (run_state (read_exact_poll 100
     (read_exact_new \<lparr>poll_read = (\<lambda>k b. State_Monad.return (Ready (Ok 0))),
        cancel_read = (\<lambda>wait. State_Monad.return (Some (Ok ())))\<rparr> \<lparr>buf_len = 2, buf_ptr = 7\<rparr>) 1) ()) = None"
  by (rule read_exact_at_end_diverges) simp_all

lemma sample_reader_eager: "eager (sample_reader (Ready (Ok 0)) j)"
  by (auto simp: eager_def sample_reader_def)

theorem chain_concatenates_witness:
  "let chain = chain_async_read (chain_new (sample_reader (Ready (Ok 0)) True) (sample_reader (Ready (Ok 0)) False))
   in reads fst (\<lambda>s. snd s True @ snd s False) chain \<and> ends (\<lambda>s. snd s True @ snd s False) chain \<and> eager chain"
  using chain_concatenates [OF sample_reader_reads [of "Ready (Ok 0)" True] sample_reader_ends
      sample_reader_reads [of "Ready (Ok 0)" False] sample_reader_ends] sample_reader_eager
  unfolding Let_def by (auto simp: sample_reader_def)

end
