(* ===== verification/Async_Write.thy ===== *)
theory Async_Write
  imports Io_Buf
begin

text \<open>
  \<open>src/io/write/mod.rs\<close> and \<open>src/io/write/ext.rs\<close>: the trait \<open>AsyncWrite\<close> as a record of its two
  operations, its forwarding implementations, and the futures of \<open>AsyncWriteExt\<close>.
\<close>

section \<open>Operations\<close>

record 's async_write =
  poll_write :: "waker \<Rightarrow> wsabuf \<Rightarrow> ('s, usize res poll) state"
  cancel_write :: "bool \<Rightarrow> ('s, unit res option) state"

definition pin_async_write :: "'s async_write \<Rightarrow> 's async_write" where
  "pin_async_write io = \<lparr>poll_write = (\<lambda>cx buf. poll_write io cx buf), cancel_write = (\<lambda>wait. cancel_write io wait)\<rparr>"

definition ref_async_write :: "'s async_write \<Rightarrow> 's async_write" where
  "ref_async_write io = \<lparr>poll_write = (\<lambda>cx buf. poll_write io cx buf), cancel_write = (\<lambda>wait. cancel_write io wait)\<rparr>"

record 's write_future =
  write_io :: "'s async_write"
  write_buf :: wsabuf

definition write_new :: "'s async_write \<Rightarrow> wsabuf \<Rightarrow> 's write_future" where
  "write_new self buf = \<lparr>write_io = self, write_buf = buf\<rparr>"

definition write_poll :: "'s write_future \<Rightarrow> waker \<Rightarrow> ('s, usize res poll) state" where
  "write_poll self cx = poll_write (ref_async_write (write_io self)) cx (write_buf self)"

definition write_cancel :: "'s write_future \<Rightarrow> ('s, unit res option) state" where
  "write_cancel self = cancel_write (ref_async_write (write_io self)) False"

text \<open>Unlike the drop of a \<open>Read\<close>, the drop of a \<open>Write\<close> unwraps.\<close>

definition write_drop :: "'s write_future \<Rightarrow> ('s, unit res option) state" where
  "write_drop self = do {
     r \<leftarrow> cancel_write (ref_async_write (write_io self)) True;
     State_Monad.return (map_option unwrap r) }"

record 's write_all =
  wa_write :: "'s write_future"
  wa_buf :: wsabuf
  wa_n :: usize

definition write_all_new :: "'s async_write \<Rightarrow> wsabuf \<Rightarrow> 's write_all" where
  "write_all_new self buf = \<lparr>wa_write = write_new self buf, wa_buf = buf, wa_n = 0\<rparr>"

primrec write_all_poll ::
  "nat \<Rightarrow> 's write_all \<Rightarrow> waker \<Rightarrow> ('s, (unit res poll \<times> 's write_all) option) state" where
  "write_all_poll 0 = (\<lambda>self cx. State_Monad.return None)"
| "write_all_poll (Suc fuel) = (\<lambda>self cx. do {
     poll \<leftarrow> write_poll (wa_write self) cx;
     case poll of
       Ready (Ok n) \<Rightarrow>
         (let self = self\<lparr>wa_n := wa_n self + n\<rparr> in
          if wa_n self = ucast (buf_len (wa_buf self)) then State_Monad.return (Some (Ready (Ok ()), self))
          else
            (let b = write_buf (wa_write self);
                 b = b\<lparr>buf_len := buf_len b - ucast n\<rparr>;
                 b = b\<lparr>buf_ptr := buf_ptr b + uint n\<rparr>
             in write_all_poll fuel (self\<lparr>wa_write := (wa_write self)\<lparr>write_buf := b\<rparr>\<rparr>) cx))
     | Ready (Err err) \<Rightarrow> State_Monad.return (Some (Ready (Err err), self))
     | Ready (Fault f) \<Rightarrow> State_Monad.return (Some (Ready (Fault f), self))
     | Pending \<Rightarrow> State_Monad.return (Some (Pending, self)) })"

definition write_all_cancel :: "'s write_all \<Rightarrow> ('s, unit res option) state" where
  "write_all_cancel self = write_cancel (wa_write self)"

section \<open>Writing from memory\<close>

text \<open>
  What a writer is supposed to do: the first \<open>n\<close> bytes of the buffer are appended to the output.
\<close>

definition bytes_at :: "(ptr \<Rightarrow> 'b) \<Rightarrow> ptr \<Rightarrow> nat \<Rightarrow> 'b list" where
  "bytes_at m a n = map (\<lambda>i. m (a + int i)) [0..<n]"

definition write_moved ::
  "('s \<Rightarrow> ptr \<Rightarrow> 'b) \<Rightarrow> ('s \<Rightarrow> 'b list) \<Rightarrow> wsabuf \<Rightarrow> nat \<Rightarrow> 's \<Rightarrow> 's \<Rightarrow> bool" where
  "write_moved mem out b n s t \<longleftrightarrow> mem t = mem s \<and> out t = out s @ bytes_at (mem s) (buf_ptr b) n"

text \<open>The contract of \<open>poll_write\<close>.\<close>

definition writes :: "('s \<Rightarrow> ptr \<Rightarrow> 'b) \<Rightarrow> ('s \<Rightarrow> 'b list) \<Rightarrow> 's async_write \<Rightarrow> bool" where
  "writes mem out io \<longleftrightarrow> (\<forall>b k s r s'. run_state (poll_write io k b) s = (r, s') \<longrightarrow>
     (case r of
        Ready (Ok m) \<Rightarrow> unat m \<le> unat (buf_len b) \<and> write_moved mem out b (unat m) s s'
      | _ \<Rightarrow> write_moved mem out b 0 s s'))"

lemma bytes_at_add: "bytes_at m a (d + n) = bytes_at m a d @ bytes_at m (a + int d) n"
  by (rule nth_equalityI) (auto simp: bytes_at_def nth_append algebra_simps)

lemma write_moved_append:
  assumes "write_moved mem out b (unat n) s t" and "write_moved mem out (advance b n) m t u"
  shows "write_moved mem out b (unat n + m) s u"
  using assms by (simp add: write_moved_def advance_def bytes_at_add)

definition wa_moved_on :: "wsabuf \<Rightarrow> usize \<Rightarrow> 's write_all \<Rightarrow> 's write_all" where
  "wa_moved_on b n f = f\<lparr>wa_n := n, wa_write := (wa_write f)\<lparr>write_buf := b\<rparr>\<rparr>"

interpretation wa: exact_transfer
  "\<lambda>fuel f k. run_state (write_all_poll fuel f k)" "\<lambda>f k. run_state (write_poll (wa_write f) k)"
  "\<lambda>f. write_buf (wa_write f)" wa_buf wa_n wa_moved_on "write_moved mem out"
  for mem :: "'s \<Rightarrow> ptr \<Rightarrow> 'b" and out :: "'s \<Rightarrow> 'b list"
proof
  show "run_state (write_all_poll (Suc fuel) f k) s =
      (case run_state (write_poll (wa_write f) k) s of
         (Pending, s') \<Rightarrow> (Some (Pending, f), s')
       | (Ready (Err e), s') \<Rightarrow> (Some (Ready (Err e), f), s')
       | (Ready (Fault x), s') \<Rightarrow> (Some (Ready (Fault x), f), s')
       | (Ready (Ok n), s') \<Rightarrow>
           if wa_n f + n = ucast (buf_len (wa_buf f))
           then (Some (Ready (Ok ()), wa_moved_on (write_buf (wa_write f)) (wa_n f + n) f), s')
           else run_state (write_all_poll fuel (wa_moved_on (advance (write_buf (wa_write f)) n) (wa_n f + n) f) k) s')"
    for fuel f k s
    by (simp add: wa_moved_on_def advance_def Let_def split: prod.split poll.split res.split)
qed (simp_all add: wa_moved_on_def write_moved_append)

lemma write_all_new_within: "wa.within (write_all_new io buf)"
  by (simp add: wa.within_def write_all_new_def write_new_def)

lemma writes_lawful: "writes mem out io \<Longrightarrow> wa.lawful TYPE(_) mem out (write_all_new io buf)"
  unfolding wa.lawful_def
  by (simp add: writes_def wa_moved_on_def write_all_new_def write_new_def write_poll_def ref_async_write_def)

section \<open>Properties\<close>

text \<open>
  Property C10: \<open>write_all\<close> writes exactly its buffer. If the writer keeps its contract and the code
  that runs between the polls leaves memory and output alone, then awaiting \<open>write_all(buf)\<close> to
  success, in however many writes and polls, appends the bytes of the buffer to the output, each
  once and in order.
\<close>

theorem write_all_sends:
  assumes "writes mem out io"
    and "\<forall>(k, e) \<in> set ks. \<forall>s. mem (e s) = mem s \<and> out (e s) = out s"
    and "awaits (\<lambda>f k. run_state (write_all_poll fuel f k)) ks (write_all_new io buf) s = Some (Ok (), s')"
  shows "mem s' = mem s \<and> out s' = out s @ bytes_at (mem s) (buf_ptr buf) (unat (buf_len buf))"
proof -
  have "write_moved mem out buf (unat (wa_n (write_all_new io buf))) s s"
    by (simp add: write_moved_def write_all_new_def bytes_at_def)
  moreover have "wa_buf (write_all_new io buf) = buf" by (simp add: write_all_new_def)
  moreover have "\<forall>(k, e) \<in> set ks. \<forall>b n u v. write_moved mem out b n u v \<longrightarrow> write_moved mem out b n u (e v)"
    using assms(2) by (fastforce simp: write_moved_def)
  ultimately show ?thesis
    using wa.awaits_transfers [OF write_all_new_within writes_lawful [OF assms(1)] _ assms(3), of s]
    by (simp add: write_moved_def)
qed

text \<open>
  Property C31: a poll of \<open>write_all\<close> returns when the writer makes progress, with one recursive
  call more than the buffer has bytes; against a writer that accepts no byte it never returns.
\<close>

theorem write_all_returns:
  assumes "writes mem out io" and "unat (buf_len buf) < fuel" and "buf_len buf \<noteq> 0"
  shows "((\<forall>b s s'. run_state (poll_write io k b) s \<noteq> (Ready (Ok 0), s')) \<longrightarrow>
      (\<exists>r. fst (run_state (write_all_poll fuel (write_all_new io buf) k) s) = Some r)) \<and>
    ((\<forall>b s. run_state (poll_write io k b) s = (Ready (Ok 0), s)) \<longrightarrow>
      (\<forall>n. fst (run_state (write_all_poll n (write_all_new io buf) k) s) = None))"
proof (intro conjI impI allI)
  assume progress: "\<forall>b s s'. run_state (poll_write io k b) s \<noteq> (Ready (Ok 0), s')"
  show "\<exists>r. fst (run_state (write_all_poll fuel (write_all_new io buf) k) s) = Some r"
  proof (rule wa.loop_returns [OF write_all_new_within wa.lawful_bounded [OF writes_lawful [OF assms(1)]]])
    show "wa.left_over (write_all_new io buf) < fuel"
      using assms(2) by (simp add: wa.left_over_def write_all_new_def)
    show "m \<noteq> 0" if "run_state (write_poll (wa_write (wa_moved_on b n (write_all_new io buf))) k) s = (Ready (Ok m), s')"
      for b n s m s'
      using that progress
      by (auto simp: write_poll_def wa_moved_on_def write_all_new_def write_new_def ref_async_write_def)
  qed
next
  fix n
  assume stuck: "\<forall>b s. run_state (poll_write io k b) s = (Ready (Ok 0), s)"
  have "(ucast (buf_len buf) :: usize) \<noteq> 0"
    using assms(3) by (metis unat_0 unat_ucast_usize unat_eq_0)
  then show "fst (run_state (write_all_poll n (write_all_new io buf) k) s) = None"
    using stuck
    by (intro wa.loop_never_returns [where nxt = "\<lambda>s. s"])
      (simp_all add: write_poll_def wa_moved_on_def write_all_new_def write_new_def ref_async_write_def)
qed

text \<open>A writer to evaluate on: memory and output, one byte at a time, pending on an empty buffer.\<close>

definition sample_writer :: "((ptr \<Rightarrow> nat) \<times> nat list) async_write" where
  "sample_writer = \<lparr>
     poll_write = (\<lambda>k b. State (\<lambda>(m, out).
       if buf_len b = 0 then (Pending, (m, out)) else (Ready (Ok 1), (m, out @ [m (buf_ptr b)])))),
     cancel_write = (\<lambda>wait. State_Monad.return (Some (Ok ())))\<rparr>"

lemma sample_writer_writes: "writes fst snd sample_writer"
proof -
  have "Suc 0 \<le> unat b" if "b \<noteq> 0" for b :: u32 using that unat_gt_0 [of b] by simp
  then show ?thesis
    by (auto simp: writes_def sample_writer_def write_moved_def bytes_at_def split: if_splits)
qed

theorem write_all_sends_witness:
  "awaits (\<lambda>f k. run_state (write_all_poll 3 f k)) [(1, id)]
     (write_all_new sample_writer \<lparr>buf_len = 2, buf_ptr = 7\<rparr>) (nat, []) = Some (Ok (), (nat, [7, 8])) \<and>
   [7, 8] = bytes_at nat 7 2"
proof
  show run: "awaits (\<lambda>f k. run_state (write_all_poll 3 f k)) [(1, id)]
     (write_all_new sample_writer \<lparr>buf_len = 2, buf_ptr = 7\<rparr>) (nat, []) = Some (Ok (), (nat, [7, 8]))"
    by (simp add: numeral_3_eq_3 write_all_new_def write_new_def write_poll_def ref_async_write_def
        sample_writer_def Let_def)
  show "[7, 8] = bytes_at nat 7 2"
    using write_all_sends [OF sample_writer_writes _ run] by simp
qed

theorem write_all_returns_witness:
  "\<exists>r. fst (run_state (write_all_poll 3 (write_all_new sample_writer \<lparr>buf_len = 2, buf_ptr = 7\<rparr>) 1) (nat, [])) = Some r"
  using write_all_returns [OF sample_writer_writes, of "\<lparr>buf_len = 2, buf_ptr = 7\<rparr>" 3 1 "(nat, [])"]
  by (auto simp: sample_writer_def split: if_splits)

end
