(* ===== verification/Tcp.thy ===== *)
theory Tcp
  imports Io_Handle Sock_Addr Async_Read Async_Write
begin

text \<open>
  \<open>src/net/tcp\<close>: the functions that schedule, cancel and close socket operations, streams and
  their halves, connecting, listening and accepting. What other threads do while a task waits is
  a parameter, as in the theories below: a list of changes of the world, one for each time the
  task is suspended. The crate \<open>socket2\<close>, which reads addresses and options of a socket, is a
  parameter too.
\<close>

section \<open>Sockets (\<open>socket.rs\<close>, \<open>read.rs\<close>, \<open>write.rs\<close>)\<close>

definition socket_new :: "platform \<Rightarrow> ('z wae, ptr res) state" where
  "socket_new p = do {
     socket \<leftarrow> sys p WSASocketW;
     if socket \<noteq> c_INVALID_SOCKET p then State_Monad.return (Ok socket) else fail_last p }"

definition socket_close :: "platform \<Rightarrow> close_fn" where
  "socket_close p handle = do { _ \<leftarrow> sys p (closesocket handle); State_Monad.return () }"

definition socket_cancel :: "platform \<Rightarrow> cancel_fn" where
  "socket_cancel p handle overlapped wait = do {
     r \<leftarrow> sys p (CancelIoEx handle overlapped);
     ret \<leftarrow> (if r \<noteq> 0 then State_Monad.return (Ok ()) else fail_last p);
     _ \<leftarrow> (if wait then sys p (GetOverlappedResult handle overlapped) else State_Monad.return 0);
     State_Monad.return ret }"

text \<open>997 is \<open>WSA_IO_PENDING\<close>. The transferred count is a \<open>u32\<close>.\<close>

definition recv_schedule :: "platform \<Rightarrow> schedule_fn" where
  "recv_schedule p handle overlapped buf = do {
     ret \<leftarrow> sys p (WSARecv handle overlapped buf);
     if ret = 0 then do {
       r \<leftarrow> sys_out p (WSAGetOverlappedResult handle overlapped);
       if fst r = c_TRUE p then
         State_Monad.return (Ready (Ok (ucast (word_of_int (snd r) :: u32))))
       else do { e \<leftarrow> fail_last p; State_Monad.return (Ready e) }
     } else do {
       err \<leftarrow> sys p WSAGetLastError;
       State_Monad.return (if err = 997 then Pending else Ready (Err (Os err)))
     } }"

definition send_schedule :: "platform \<Rightarrow> schedule_fn" where
  "send_schedule p handle overlapped buf = do {
     ret \<leftarrow> sys p (WSASend handle overlapped buf);
     if ret = 0 then do {
       r \<leftarrow> sys_out p (WSAGetOverlappedResult handle overlapped);
       if fst r = c_TRUE p then
         State_Monad.return (Ready (Ok (ucast (word_of_int (snd r) :: u32))))
       else do { e \<leftarrow> fail_last p; State_Monad.return (Ready e) }
     } else do {
       err \<leftarrow> sys p WSAGetLastError;
       State_Monad.return (if err = 997 then Pending else Ready (Err (Os err)))
     } }"

definition socket_handle_new :: "platform \<Rightarrow> ptr \<Rightarrow> tp_environ \<Rightarrow> (io_world, io_handle res) state" where
  "socket_handle_new p socket callback_environ =
     io_handle_new p socket (socket_close p) (recv_schedule p) (socket_cancel p)
       (send_schedule p) (socket_cancel p) callback_environ"

section \<open>Streams and halves\<close>

record tcp_stream =
  ts_inner :: io_handle

record read_half =
  rh_inner :: tcp_stream

record write_half =
  wh_inner :: tcp_stream

definition stream_split :: "tcp_stream \<Rightarrow> read_half \<times> write_half" where
  "stream_split self = (\<lparr>rh_inner = \<lparr>ts_inner = ts_inner self\<rparr>\<rparr>, \<lparr>wh_inner = self\<rparr>)"

definition stream_async_read ::
  "platform \<Rightarrow> (io_world \<Rightarrow> io_world) list \<Rightarrow> tcp_stream \<Rightarrow> io_world async_read" where
  "stream_async_read p env self = \<lparr>
     poll_read = (\<lambda>cx buf. io_handle_poll_read p (ts_inner self) cx buf),
     cancel_read = (\<lambda>wait. io_handle_cancel_read p env (ts_inner self) wait)\<rparr>"

definition read_half_async_read ::
  "platform \<Rightarrow> (io_world \<Rightarrow> io_world) list \<Rightarrow> read_half \<Rightarrow> io_world async_read" where
  "read_half_async_read p env self = \<lparr>
     poll_read = (\<lambda>cx buf. io_handle_poll_read p (ts_inner (rh_inner self)) cx buf),
     cancel_read = (\<lambda>wait. io_handle_cancel_read p env (ts_inner (rh_inner self)) wait)\<rparr>"

definition stream_async_write ::
  "platform \<Rightarrow> (io_world \<Rightarrow> io_world) list \<Rightarrow> tcp_stream \<Rightarrow> io_world async_write" where
  "stream_async_write p env self = \<lparr>
     poll_write = (\<lambda>cx buf. io_handle_poll_write p (ts_inner self) cx buf),
     cancel_write = (\<lambda>wait. io_handle_cancel_write p env (ts_inner self) wait)\<rparr>"

definition write_half_async_write ::
  "platform \<Rightarrow> (io_world \<Rightarrow> io_world) list \<Rightarrow> write_half \<Rightarrow> io_world async_write" where
  "write_half_async_write p env self = \<lparr>
     poll_write = (\<lambda>cx buf. io_handle_poll_write p (ts_inner (wh_inner self)) cx buf),
     cancel_write = (\<lambda>wait. io_handle_cancel_write p env (ts_inner (wh_inner self)) wait)\<rparr>"

text \<open>
  \<open>with_socket\<close> lends the socket to \<open>socket2\<close>: a temporary \<open>Socket\<close> that is forgotten at the end.
  If the function panics, the forgetting is not reached and the temporary closes the socket.
\<close>

definition with_socket ::
  "platform \<Rightarrow> tcp_stream \<Rightarrow> (ptr \<Rightarrow> (io_world, 'a res) state) \<Rightarrow> (io_world, 'a res) state" where
  "with_socket p self f = do {
     output \<leftarrow> f (io_hd (ts_inner self));
     case output of
       Fault x \<Rightarrow> do { _ \<leftarrow> socket_close p (io_hd (ts_inner self)); State_Monad.return (Fault x) }
     | _ \<Rightarrow> State_Monad.return output }"

text \<open>\<open>.map(|a| a.as_std().unwrap())\<close> on the answer of \<open>socket2\<close>.\<close>

fun as_std_unwrap :: "socket_addr option res \<Rightarrow> socket_addr res" where
  "as_std_unwrap (Ok (Some a)) = Ok a"
| "as_std_unwrap (Ok None) = Fault (Panicked ''called Option::unwrap() on a None value'')"
| "as_std_unwrap (Err e) = Err e"
| "as_std_unwrap (Fault x) = Fault x"

text \<open>\<open>local_addr\<close> and \<open>peer_addr\<close>, with the function of \<open>socket2\<close> they call; and the options
  (\<open>ttl\<close>, \<open>nodelay\<close>, \<open>linger\<close>, their setters, \<open>shutdown\<close>), which only pass the call on.\<close>

definition stream_addr ::
  "platform \<Rightarrow> (ptr \<Rightarrow> (io_world, socket_addr option res) state) \<Rightarrow> tcp_stream \<Rightarrow> (io_world, socket_addr res) state"
  where
  "stream_addr p get self = with_socket p self (\<lambda>s. do { a \<leftarrow> get s; State_Monad.return (as_std_unwrap a) })"

definition stream_option ::
  "platform \<Rightarrow> (ptr \<Rightarrow> (io_world, 'a res) state) \<Rightarrow> tcp_stream \<Rightarrow> (io_world, 'a res) state" where
  "stream_option p call self = with_socket p self call"


section \<open>Awaiting\<close>

text \<open>
  \<open>future.await\<close>: polled, suspended while pending, and polled again after what the other threads
  did meanwhile. \<open>None\<close>: still suspended.
\<close>

fun await :: "(io_world, 'r poll) state \<Rightarrow> (io_world \<Rightarrow> io_world) list \<Rightarrow> (io_world, 'r option) state" where
  "await poll [] = do {
     r \<leftarrow> poll;
     State_Monad.return (case r of Ready x \<Rightarrow> Some x | Pending \<Rightarrow> None) }"
| "await poll (e # es) = do {
     r \<leftarrow> poll;
     case r of
       Ready x \<Rightarrow> State_Monad.return (Some x)
     | Pending \<Rightarrow> do { _ \<leftarrow> State (\<lambda>w. ((), e w)); await poll es } }"

text \<open>\<open>?\<close> in an \<open>async fn\<close>, and a value that is dropped when the block that owns it ends.\<close>

definition aq ::
  "(io_world, 'a res option) state \<Rightarrow> ('a \<Rightarrow> (io_world, 'b res option) state) \<Rightarrow> (io_world, 'b res option) state"
  where
  "aq m f = do {
     r \<leftarrow> m;
     case r of
       None \<Rightarrow> State_Monad.return None
     | Some (Ok x) \<Rightarrow> f x
     | Some (Err e) \<Rightarrow> State_Monad.return (Some (Err e))
     | Some (Fault x) \<Rightarrow> State_Monad.return (Some (Fault x)) }"

definition sync :: "(io_world, 'a res) state \<Rightarrow> (io_world, 'a res option) state" where
  "sync m = do { r \<leftarrow> m; State_Monad.return (Some r) }"

definition owning ::
  "(io_world, unit option) state \<Rightarrow> (io_world, 'a res option) state \<Rightarrow> (io_world, 'a res option) state" where
  "owning dropped m = do {
     r \<leftarrow> m;
     case r of
       None \<Rightarrow> State_Monad.return None
     | Some x \<Rightarrow> do {
         d \<leftarrow> dropped;
         State_Monad.return (case d of None \<Rightarrow> None | Some _ \<Rightarrow> Some x) } }"

text \<open>What the other threads do: while a name is looked up, during the attempts to connect, and
  while an event is dropped.\<close>

record others =
  o_lookup :: "(io_world \<Rightarrow> io_world) list"
  o_attempt :: "nat \<Rightarrow> (io_world \<Rightarrow> io_world) list"
  o_drop :: "(io_world \<Rightarrow> io_world) list"

fun to_socket_addrs_drop ::
  "platform \<Rightarrow> (io_world \<Rightarrow> io_world) list \<Rightarrow> to_socket_addrs \<Rightarrow> (io_world, unit option) state" where
  "to_socket_addrs_drop p env (Future f) =
     (case gai_event f of Ok ev \<Rightarrow> io_event_drop p env ev | _ \<Rightarrow> State_Monad.return (Some ()))"
| "to_socket_addrs_drop p env _ = State_Monad.return (Some ())"

text \<open>\<open>addr.to_socket_addrs().await\<close>: the future is dropped once it has answered.\<close>

definition resolve ::
  "platform \<Rightarrow> others \<Rightarrow> waker \<Rightarrow> (io_world, to_socket_addrs res) state
     \<Rightarrow> (io_world, to_socket_addrs_iter res option) state" where
  "resolve p ot cx addr =
     aq (sync addr) (\<lambda>future.
       owning (to_socket_addrs_drop p (o_drop ot) future)
         (await (to_socket_addrs_poll p future cx) (o_lookup ot)))"

section \<open>Connecting (\<open>stream.rs\<close>)\<close>

definition AF_INET :: u16 where "AF_INET = 2"

text \<open>The lengths of \<open>SOCKADDR_IN\<close> and \<open>SOCKADDR_IN6\<close>, and of the \<open>SOCKADDR\<close> that is copied.\<close>

fun sockaddr_len :: "socket_addr \<Rightarrow> nat" where
  "sockaddr_len (V4 _) = 16"
| "sockaddr_len (V6 _) = 28"

definition sizeof_SOCKADDR :: nat where "sizeof_SOCKADDR = 16"

record connect =
  cn_socket :: ptr
  cn_event :: io_event
  cn_addr :: socket_addr
  cn_len :: nat

text \<open>10056 is \<open>WSAEISCONN\<close>.\<close>

definition connect_schedule :: "platform \<Rightarrow> connect \<Rightarrow> event_schedule" where
  "connect_schedule p self = do {
     ret \<leftarrow> sys p (ConnectEx (cn_socket self) (cn_addr self) sizeof_SOCKADDR (cn_len self));
     if ret = c_TRUE p then State_Monad.return (Ready (Ok ()))
     else do {
       err \<leftarrow> sys p WSAGetLastError;
       State_Monad.return
         (if err = 10056 then Ready (Ok ()) else if err = 997 then Pending else Ready (Err (Os err)))
     } }"

definition connect_poll :: "platform \<Rightarrow> connect \<Rightarrow> waker \<Rightarrow> (io_world, unit res poll) state" where
  "connect_poll p self cx =
     io_event_poll p (cn_event self) (Some (cn_socket self)) cx (connect_schedule p self)"

text \<open>The body of the loop over the addresses: the state is \<open>(result, tried)\<close>.\<close>

definition connect_attempt ::
  "platform \<Rightarrow> others \<Rightarrow> waker \<Rightarrow> ptr \<Rightarrow> io_event \<Rightarrow> socket_addr \<Rightarrow> unit res \<times> nat
     \<Rightarrow> (io_world, ((unit res \<times> nat) \<times> bool) option) state" where
  "connect_attempt p ot cx socket event addr c = do {
     r \<leftarrow> await (connect_poll p \<lparr>cn_socket = socket, cn_event = event, cn_addr = addr,
                cn_len = sockaddr_len addr\<rparr> cx) (o_attempt ot (snd c));
     State_Monad.return
       (case r of
          None \<Rightarrow> None
        | Some result \<Rightarrow> Some ((result, snd c + 1), (case result of Err _ \<Rightarrow> False | _ \<Rightarrow> True))) }"

definition not_resolved :: io_error where
  "not_resolved = NotFound ''the provided address couldn't be resolved''"

text \<open>After the loop.\<close>

definition connect_finish ::
  "platform \<Rightarrow> ptr \<Rightarrow> unit res \<times> nat \<Rightarrow> (io_world, tcp_stream res option) state" where
  "connect_finish p socket c =
     (case fst c of
        Ok _ \<Rightarrow>
          aq (sync current) (\<lambda>h.
          aq (sync (socket_handle_new p socket (handle_callback_environ p h))) (\<lambda>inner.
          State_Monad.return (Some (Ok \<lparr>ts_inner = inner\<rparr>))))
      | Err err \<Rightarrow> State_Monad.return (Some (Err (if snd c > 0 then err else not_resolved)))
      | Fault f \<Rightarrow> State_Monad.return (Some (Fault f)))"

definition connect_addrs ::
  "platform \<Rightarrow> addrinfo_mem \<Rightarrow> nat \<Rightarrow> others \<Rightarrow> waker \<Rightarrow> ptr \<Rightarrow> io_event \<Rightarrow> to_socket_addrs_iter
     \<Rightarrow> (io_world, tcp_stream res option) state" where
  "connect_addrs p m fuel ot cx socket event addrs = do {
     c \<leftarrow> iterate (to_socket_addrs_iter_next m fuel) fuel (connect_attempt p ot cx socket event) addrs
            (Err (Os 0), 0);
     case c of
       None \<Rightarrow> State_Monad.return None
     | Some c \<Rightarrow> do {
         _ \<leftarrow> to_socket_addrs_iter_drop p addrs;
         connect_finish p socket c } }"

definition connect_bind :: "platform \<Rightarrow> ptr \<Rightarrow> (io_world, unit res) state" where
  "connect_bind p socket = do {
     ret \<leftarrow> sys p (WinBind socket (Raw_IN6 AF_INET));
     if ret \<noteq> 0 then do {
       ret \<leftarrow> sys p (WinBind socket (Raw_IN AF_INET));
       if ret \<noteq> 0 then fail_last p else State_Monad.return (Ok ())
     } else State_Monad.return (Ok ()) }"

text \<open>The function pointers the source asks for by \<open>WSAIoctl\<close>.\<close>

definition extension_function :: "platform \<Rightarrow> ptr \<Rightarrow> guid \<Rightarrow> (io_world, ptr res) state" where
  "extension_function p socket g = do {
     r \<leftarrow> sys_out p (WSAIoctl socket g);
     if fst r = 0 \<and> snd r \<noteq> 0 then State_Monad.return (Ok (snd r)) else fail_last p }"

definition tcp_connect ::
  "platform \<Rightarrow> addrinfo_mem \<Rightarrow> nat \<Rightarrow> others \<Rightarrow> waker \<Rightarrow> (io_world, to_socket_addrs res) state
     \<Rightarrow> (io_world, tcp_stream res option) state" where
  "tcp_connect p m fuel ot cx addr =
     aq (sync current) (\<lambda>handle.
     aq (sync (socket_new p)) (\<lambda>socket.
     aq (sync (connect_bind p socket)) (\<lambda>_.
     aq (sync (extension_function p socket WSAID_CONNECTEX)) (\<lambda>connectex.
     aq (sync (io_event_new p OvEvent (handle_callback_environ p handle))) (\<lambda>event.
     owning (io_event_drop p (o_drop ot) event)
       (aq (resolve p ot cx addr) (\<lambda>addrs.
        connect_addrs p m fuel ot cx socket event addrs)))))))"

section \<open>Listening and accepting (\<open>listener.rs\<close>)\<close>

record tcp_listener =
  li_socket :: ptr
  li_acceptex :: ptr
  li_gaesa :: ptr

definition bind_attempt ::
  "platform \<Rightarrow> ptr \<Rightarrow> socket_addr \<Rightarrow> bool \<times> nat \<Rightarrow> (io_world, ((bool \<times> nat) \<times> bool) option) state" where
  "bind_attempt p socket addr c = do {
     ret \<leftarrow> sys p (WinBind socket (RawAddr addr));
     State_Monad.return (Some ((ret = 0, snd c + 1), ret = 0)) }"

definition bind_finish ::
  "platform \<Rightarrow> ptr \<Rightarrow> ptr \<Rightarrow> ptr \<Rightarrow> bool \<times> nat \<Rightarrow> (io_world, tcp_listener res) state" where
  "bind_finish p socket acceptex gaesa c =
     (if \<not> fst c \<and> snd c > 0 then fail_last p
      else if \<not> fst c then State_Monad.return (Err not_resolved)
      else do {
        ret \<leftarrow> sys p (WinListen socket);
        if ret \<noteq> 0 then fail_last p
        else State_Monad.return
          (Ok \<lparr>li_socket = socket, li_acceptex = acceptex, li_gaesa = gaesa\<rparr>)
      })"

definition tcp_bind ::
  "platform \<Rightarrow> addrinfo_mem \<Rightarrow> nat \<Rightarrow> others \<Rightarrow> waker \<Rightarrow> (io_world, to_socket_addrs res) state
     \<Rightarrow> (io_world, tcp_listener res option) state" where
  "tcp_bind p m fuel ot cx addr =
     aq (sync (socket_new p)) (\<lambda>socket.
     aq (sync (extension_function p socket WSAID_ACCEPTEX)) (\<lambda>acceptex.
     aq (sync (extension_function p socket WSAID_GETACCEPTEXSOCKADDRS)) (\<lambda>gaesa.
     aq (resolve p ot cx addr) (\<lambda>addrs. do {
       c \<leftarrow> iterate (to_socket_addrs_iter_next m fuel) fuel (bind_attempt p socket) addrs (False, 0);
       case c of
         None \<Rightarrow> State_Monad.return None
       | Some c \<Rightarrow> do {
           _ \<leftarrow> to_socket_addrs_iter_drop p addrs;
           sync (bind_finish p socket acceptex gaesa c) } }))))"

text \<open>
  Accessors of the listener, through \<open>socket2\<close>; its socket is owned by a \<open>Socket\<close> of that crate,
  whose drop closes it.
\<close>

definition listener_addr ::
  "(ptr \<Rightarrow> (io_world, socket_addr option res) state) \<Rightarrow> tcp_listener \<Rightarrow> (io_world, socket_addr res) state" where
  "listener_addr get self = do { a \<leftarrow> get (li_socket self); State_Monad.return (as_std_unwrap a) }"

definition listener_option ::
  "(ptr \<Rightarrow> (io_world, 'a res) state) \<Rightarrow> tcp_listener \<Rightarrow> (io_world, 'a res) state" where
  "listener_option call self = call (li_socket self)"

definition listener_drop :: "platform \<Rightarrow> tcp_listener \<Rightarrow> (io_world, unit) state" where
  "listener_drop p self = do { _ \<leftarrow> sys p (closesocket (li_socket self)); State_Monad.return () }"

definition ADDR_SPACE :: "platform \<Rightarrow> usize" where
  "ADDR_SPACE p = sizeof_SOCKADDR_IN6 p + 16"

record accept =
  ac_listener :: tcp_listener
  ac_client :: "int + ptr" \<comment> \<open>\<open>Result<SOCKET, i32>\<close>\<close>
  ac_event :: "int + io_event"
  ac_capacity :: usize

text \<open>\<open>.map_err(|err| err.raw_os_error().unwrap())\<close>; a panic goes through.\<close>

fun os_code :: "'a res \<Rightarrow> (int + 'a) res" where
  "os_code (Ok x) = Ok (Inr x)"
| "os_code (Err e) =
     (case raw_os_error e of Some n \<Rightarrow> Ok (Inl n)
      | None \<Rightarrow> Fault (Panicked ''called Option::unwrap() on a None value''))"
| "os_code (Fault f) = Fault f"

text \<open>\<open>ov\<close>: where the box of the new event is.\<close>

definition listener_accept :: "platform \<Rightarrow> overlapped \<Rightarrow> tcp_listener \<Rightarrow> (io_world, accept res) state" where
  "listener_accept p ov self =
     qmark (do { c \<leftarrow> socket_new p; State_Monad.return (os_code c) }) (\<lambda>client.
     qmark current (\<lambda>h.
     qmark (do { e \<leftarrow> io_event_new p ov (handle_callback_environ p h); State_Monad.return (os_code e) }) (\<lambda>event.
     State_Monad.return (Ok \<lparr>ac_listener = self, ac_client = client, ac_event = event,
       ac_capacity = ADDR_SPACE p * 2\<rparr>))))"

definition accept_schedule :: "platform \<Rightarrow> accept \<Rightarrow> ptr \<Rightarrow> overlapped \<Rightarrow> event_schedule" where
  "accept_schedule p self client ov = do {
     ret \<leftarrow> sys p (AcceptEx (li_socket (ac_listener self)) client (ucast (ADDR_SPACE p)) ov);
     if ret = c_TRUE p then State_Monad.return (Ready (Ok ()))
     else do {
       err \<leftarrow> sys p WSAGetLastError;
       State_Monad.return (if err = 997 then Pending else Ready (Err (Os err)))
     } }"

text \<open>
  What \<open>poll\<close> does with an accepted connection. \<open>as_std\<close> reads the address at the pointer that
  \<open>GetAcceptExSockaddrs\<close> gives; the new stream is dropped if the address cannot be read.
\<close>

definition accepted ::
  "platform \<Rightarrow> (ptr \<Rightarrow> socket_addr option) \<Rightarrow> accept \<Rightarrow> ptr \<Rightarrow> (io_world, (tcp_stream \<times> socket_addr) res) state"
  where
  "accepted p as_std self client =
     qmark current (\<lambda>h. do {
       r \<leftarrow> sys_out p (GetAcceptExSockaddrs (ucast (ADDR_SPACE p)));
       qmark (socket_handle_new p client (handle_callback_environ p h)) (\<lambda>inner.
         case as_std (snd r) of
           Some a \<Rightarrow> State_Monad.return (Ok (\<lparr>ts_inner = inner\<rparr>, a))
         | None \<Rightarrow> do {
             _ \<leftarrow> io_handle_drop p [] [] inner;
             State_Monad.return (Fault (Panicked ''called Option::unwrap() on a None value'')) }) })"

definition accept_poll ::
  "platform \<Rightarrow> (ptr \<Rightarrow> socket_addr option) \<Rightarrow> accept \<Rightarrow> waker \<Rightarrow> (io_world, (tcp_stream \<times> socket_addr) res poll) state"
  where
  "accept_poll p as_std self cx =
     (case ac_client self of
        Inl err \<Rightarrow> State_Monad.return (Ready (Err (Os err)))
      | Inr client \<Rightarrow>
          (case ac_event self of
             Inl err \<Rightarrow> State_Monad.return (Ready (Err (Os err)))
           | Inr event \<Rightarrow> do {
               poll \<leftarrow> io_event_poll p event (Some (li_socket (ac_listener self))) cx
                        (accept_schedule p self client (ev_ov event));
               case poll of
                 Ready (Ok _) \<Rightarrow> do { r \<leftarrow> accepted p as_std self client; State_Monad.return (Ready r) }
               | Ready (Err err) \<Rightarrow> State_Monad.return (Ready (Err err))
               | Ready (Fault f) \<Rightarrow> State_Monad.return (Ready (Fault f))
               | Pending \<Rightarrow> State_Monad.return Pending }))"

text \<open>Dropping an \<open>Accept\<close> drops its event; the client is a plain number.\<close>

definition accept_drop :: "platform \<Rightarrow> (io_world \<Rightarrow> io_world) list \<Rightarrow> accept \<Rightarrow> (io_world, unit option) state" where
  "accept_drop p env self =
     (case ac_event self of Inr ev \<Rightarrow> io_event_drop p env ev | Inl _ \<Rightarrow> State_Monad.return (Some ()))"

record incoming =
  in_accept :: accept

definition listener_incoming :: "platform \<Rightarrow> overlapped \<Rightarrow> tcp_listener \<Rightarrow> (io_world, incoming res) state" where
  "listener_incoming p ov self =
     qmark (listener_accept p ov self) (\<lambda>a. State_Monad.return (Ok \<lparr>in_accept = a\<rparr>))"

text \<open>
  \<open>Incoming::poll_next\<close>: after an answer the accept is replaced by a new one, and the old one
  dropped. \<open>None\<close>: the drop is waiting.
\<close>

definition incoming_poll_next ::
  "platform \<Rightarrow> (ptr \<Rightarrow> socket_addr option) \<Rightarrow> overlapped \<Rightarrow> (io_world \<Rightarrow> io_world) list \<Rightarrow> incoming \<Rightarrow> waker
     \<Rightarrow> (io_world, ((tcp_stream \<times> socket_addr) res poll \<times> incoming) res option) state" where
  "incoming_poll_next p as_std ov env self cx = do {
     poll \<leftarrow> accept_poll p as_std (in_accept self) cx;
     case poll of
       Pending \<Rightarrow> State_Monad.return (Some (Ok (Pending, self)))
     | Ready (Fault f) \<Rightarrow> State_Monad.return (Some (Fault f))
     | Ready output \<Rightarrow>
         aq (sync (listener_accept p ov (ac_listener (in_accept self)))) (\<lambda>a.
         owning (accept_drop p env (in_accept self))
           (State_Monad.return (Some (Ok (Ready output, self\<lparr>in_accept := a\<rparr>))))) }"

end
