(* ===== verification/Tcp_Props.thy ===== *)
theory Tcp_Props
  imports Tcp
begin

text \<open>
  What the functions of \<open>src/net/tcp\<close> do: the life of a read on a stream and of an accept, from
  the contract of the completion objects they use; and the loops of \<open>bind\<close> and \<open>connect\<close> over the
  addresses, with the calls they make, whatever the system answers to each of them.
\<close>

section \<open>Reading from a stream\<close>

text \<open>A handle made by \<open>socket_handle_new\<close>.\<close>

definition is_socket :: "platform \<Rightarrow> io_handle \<Rightarrow> bool" where
  "is_socket p self \<longleftrightarrow>
     io_read self = \<lparr>half_overlapped = OvRead, half_schedule = recv_schedule p, half_cancel = socket_cancel p\<rparr> \<and>
     io_write self = \<lparr>half_overlapped = OvWrite, half_schedule = send_schedule p, half_cancel = socket_cancel p\<rparr> \<and>
     io_close self = socket_close p"

lemma socket_handle_new_is_socket:
  "run_state (socket_handle_new p s ce) w = (Ok self, w') \<Longrightarrow> is_socket p self \<and> io_hd self = s"
  by (auto simp: socket_handle_new_def io_handle_new_def io_half_new_def run_simps is_socket_def Let_def
      split: if_splits prod.splits)

lemma started_world_wlog [simp]:
  "wlog (started_world self ov w) = wlog w @ [StartThreadpoolIo (ptp_io self)]"
  by (simp add: started_world_def scheduling_world_def)

text \<open>
  Property: the life of a read on a TCP stream. When the system accepts the receive and leaves it
  pending, the poll is pending, and after the completion with error code \<open>r\<close> and byte count \<open>n\<close>
  the next poll answers with the count, or with the error if there is one. When the receive
  succeeds at once, the poll answers with the count the system reports.
\<close>

theorem stream_read_operation:
  fixes p :: platform and self :: tcp_stream and r :: u32 and n :: usize
    and env env' :: "(io_world \<Rightarrow> io_world) list" and k k' :: waker and buf :: wsabuf and w :: io_world
  defines "ioh \<equiv> ts_inner self"
  defines "pol \<equiv> \<lambda>k buf. run_state (poll_read (stream_async_read p env self) k buf)"
  defines "l \<equiv> wlog w @ [StartThreadpoolIo (ptp_io ioh)]"
  defines "recv \<equiv> WSARecv (io_hd ioh) OvRead buf"
  defines "get \<equiv> WSAGetOverlappedResult (io_hd ioh) OvRead"
  assumes "is_socket p ioh" and "valid_at OvRead w" and "phase_at OvRead w = Idle"
  shows "(win p l recv \<noteq> 0 \<and> win p (l @ [recv]) WSAGetLastError = 997 \<longrightarrow>
      fst (pol k buf w) = Pending \<and>
      fst (pol k' buf (snd (run_state (io_handle_callback p env' ioh OvRead r n) (snd (pol k buf w))))) =
        Ready (if r = 0 then Ok n else Err (Os (sint r)))) \<and>
    (win p l recv = 0 \<and> win p (l @ [recv]) get = c_TRUE p \<longrightarrow>
      fst (pol k buf w) = Ready (Ok (ucast (word_of_int (outp p (l @ [recv]) get) :: u32))))"
proof (intro conjI impI)
  have half: "half_of ioh False = io_read ioh" "half_overlapped (io_read ioh) = OvRead"
    "half_schedule (io_read ioh) = recv_schedule p"
    using assms(6) by (simp_all add: half_of_def is_socket_def)
  have pol: "pol k b = run_state (io_handle_poll p ioh (io_read ioh) k b)" for k b
    by (simp add: pol_def stream_async_read_def io_handle_poll_read_def ioh_def)
  note running = recv_schedule_def run_simps l_def recv_def get_def started_world_wlog
  {
    assume pend: "win p l recv \<noteq> 0 \<and> win p (l @ [recv]) WSAGetLastError = 997"
    then have "half_pends ioh (io_read ioh) buf w"
      unfolding half_pends_def half by (simp add: running)
    then show "fst (pol k buf w) = Pending"
      "fst (pol k' buf (snd (run_state (io_handle_callback p env' ioh OvRead r n) (snd (pol k buf w))))) =
        Ready (if r = 0 then Ok n else Err (Os (sint r)))"
      using half.operation [where self = ioh and wr = False and s = w and sch = buf and p = p and k = k
          and ks = "[]" and env = env' and r = r and n = n and k' = k' and sch' = buf] assms(7,8)
      unfolding half pol io_result_get_set by simp_all
  next
    assume now: "win p l recv = 0 \<and> win p (l @ [recv]) get = c_TRUE p"
    then show "fst (pol k buf w) = Ready (Ok (ucast (word_of_int (outp p (l @ [recv]) get) :: u32)))"
      using io_handle_poll_start [of w "io_read ioh" p ioh k buf] assms(7,8)
      unfolding pol half Let_def by (simp add: running split: prod.splits)
  }
qed

section \<open>Accepting\<close>

lemma io_event_poll_wctx:
  assumes "\<And>w. wctx (snd (run_state sch w)) = wctx w"
  shows "wctx (snd (run_state (io_event_poll p self hdl k sch) w)) = wctx w"
proof -
  have "wctx w' = wctx v" if "run_state sch v = (x, w')" for v x w' using assms [of v] that by simp
  then show ?thesis
    by (auto simp: io_event_poll_def run_simps Let_def split: prod.split poll.split res.split option.split)
qed

lemma accept_schedule_wctx: "wctx (snd (run_state (accept_schedule p self client ov) w)) = wctx w"
  by (simp add: accept_schedule_def run_simps)

lemma run_accepted:
  assumes "wctx w = Some h" and "\<forall>l. as_std (outp p l (GetAcceptExSockaddrs (ucast (ADDR_SPACE p)))) = Some a"
    and "\<forall>l. win p l (CreateThreadpoolIo client (handle_callback_environ p h)) \<noteq> 0"
  shows "\<exists>stream w'. run_state (accepted p as_std self client) w = (Ok (stream, a), w') \<and>
    io_hd (ts_inner stream) = client \<and> is_socket p (ts_inner stream) \<and>
    cores w' OvRead = io_core_new \<and> cores w' OvWrite = io_core_new"
  using assms
  by (auto simp: accepted_def socket_handle_new_def io_handle_new_def io_half_new_def run_simps Let_def
      is_socket_def)

text \<open>
  Property C20: the life of an accept. While no connection has come the poll is pending; after the
  event was signalled and the system confirmed the accept, the next poll makes a stream of the
  client socket, with two idle halves, and answers with it and the address of the peer, provided
  a handle is current, the I/O object can be created and the address is an internet address.
\<close>

theorem accept_operation:
  fixes p :: platform and self :: accept and k k' :: waker and env :: "(io_world \<Rightarrow> io_world) list"
    and as_std :: "ptr \<Rightarrow> socket_addr option" and w :: io_world
  assumes "ac_client self = Inr client" and "ac_event self = Inr ev"
    and "valid_at (ev_ov ev) w" and "phase_at (ev_ov ev) w = Idle"
    and "fst (run_state (accept_schedule p self client (ev_ov ev)) (scheduling_world (ev_ov ev) w)) = Pending"
  defines "w1 \<equiv> snd (run_state (accept_poll p as_std self k) w)"
  defines "w2 \<equiv> snd (run_state (io_event_callback p env ev 0) w1)"
  assumes "event_answer p ev (Some (li_socket (ac_listener self))) (io_result_set 0 0) w2 = Ok ()"
    and "wctx w2 = Some h" and "\<forall>l. as_std (outp p l (GetAcceptExSockaddrs (ucast (ADDR_SPACE p)))) = Some a"
    and "\<forall>l. win p l (CreateThreadpoolIo client (handle_callback_environ p h)) \<noteq> 0"
  shows "fst (run_state (accept_poll p as_std self k) w) = Pending \<and>
    (\<exists>stream w3. run_state (accept_poll p as_std self k') w2 = (Ready (Ok (stream, a)), w3) \<and>
       io_hd (ts_inner stream) = client \<and> is_socket p (ts_inner stream) \<and>
       cores w3 OvRead = io_core_new \<and> cores w3 OvWrite = io_core_new)"
proof -
  let ?sch = "accept_schedule p self client (ev_ov ev)"
  let ?pol = "\<lambda>k. run_state (io_event_poll p ev (Some (li_socket (ac_listener self))) k ?sch)"
  have poll: "run_state (accept_poll p as_std self k) v =
     (case ?pol k v of
        (Ready (Ok _), v') \<Rightarrow> (let (r, v'') = run_state (accepted p as_std self client) v' in (Ready r, v''))
      | (Ready (Err e), v') \<Rightarrow> (Ready (Err e), v')
      | (Ready (Fault f), v') \<Rightarrow> (Ready (Fault f), v')
      | (Pending, v') \<Rightarrow> (Pending, v'))" for k v
    using assms(1,2) by (simp add: accept_poll_def Let_def split: prod.split poll.split res.split)
  have "event_pends ev ?sch w" using assms(5) by (simp add: event_pends_def)
  from event.operation [OF assms(3,4) this, where ks = "[]" and r = 0 and env = env and p = p
      and hdl = "Some (li_socket (ac_listener self))" and k = k and k' = k' and sch' = ?sch]
  have op: "fst (?pol k w) = Pending"
    "fst (?pol k' (snd (run_state (io_event_callback p env ev 0) (snd (?pol k w))))) =
       Ready (event_answer p ev (Some (li_socket (ac_listener self))) (io_result_set 0 0)
         (snd (run_state (io_event_callback p env ev 0) (snd (?pol k w)))))"
    by simp_all
  have first: "run_state (accept_poll p as_std self k) w = (Pending, snd (?pol k w))"
    using op(1) by (cases "?pol k w") (simp add: poll)
  then have w2: "w2 = snd (run_state (io_event_callback p env ev 0) (snd (?pol k w)))"
    by (simp add: w2_def w1_def)
  obtain w3 where w3: "?pol k' w2 = (Ready (Ok ()), w3)"
    using op(2) assms(8) unfolding w2 by (metis prod.collapse)
  have "wctx w3 = Some h"
    using io_event_poll_wctx [of ?sch p ev "Some (li_socket (ac_listener self))" k' w2] accept_schedule_wctx
      w3 assms(9) by simp
  from run_accepted [OF this assms(10,11), of self] obtain stream w4 where
    acc: "run_state (accepted p as_std self client) w3 = (Ok (stream, a), w4)" "io_hd (ts_inner stream) = client"
      "is_socket p (ts_inner stream)" "cores w4 OvRead = io_core_new" "cores w4 OvWrite = io_core_new"
    by blast
  have "run_state (accept_poll p as_std self k') w2 = (Ready (Ok (stream, a)), w4)"
    using w3 acc(1) by (simp add: poll)
  then show ?thesis using first acc(2-) by simp
qed

section \<open>Loops over addresses\<close>

text \<open>The world after some more calls.\<close>

definition logged :: "call list \<Rightarrow> io_world \<Rightarrow> io_world" where
  "logged cs w = w\<lparr>wlog := wlog w @ cs\<rparr>"

lemma logged_simps [simp]:
  "logged ds (logged cs w) = logged (cs @ ds) w" "logged [] w = w"
  "cores (logged cs w) = cores w" "wctx (logged cs w) = wctx w" "wlog (logged cs w) = wlog w @ cs"
  "upd_core ov f (logged cs w) = logged cs (upd_core ov f w)"
  by (simp_all add: logged_def upd_core_def)

lemma run_sys_logged: "run_state (sys p c) w = (win p (wlog w) c, logged [c] w)"
  by (simp add: run_simps logged_def)

lemma run_sys_out_logged:
  "run_state (sys_out p c) w = ((win p (wlog w) c, outp p (wlog w) c), logged [c] w)"
  by (simp add: run_simps logged_def)

lemma run_fail_last_logged:
  "run_state (fail_last p) w = (Err (Os (win p (wlog w) GetLastError)), logged [GetLastError] w)"
  by (simp add: run_simps logged_def)

lemmas run_logged = run_sys_logged run_sys_out_logged run_fail_last_logged run_current run_qmark
  run_st_op run_st_set

lemma run_aq: "run_state (aq m f) w =
  (case run_state m w of (None, w') \<Rightarrow> (None, w') | (Some (Ok x), w') \<Rightarrow> run_state (f x) w'
     | (Some (Err e), w') \<Rightarrow> (Some (Err e), w') | (Some (Fault x), w') \<Rightarrow> (Some (Fault x), w'))"
  by (simp add: aq_def split: prod.split option.split res.split)

lemma run_sync: "run_state (sync m) w = (let (r, w') = run_state m w in (Some r, w'))"
  by (simp add: sync_def Let_def split: prod.split)

lemma run_owning: "run_state (owning d m) w =
  (case run_state m w of (None, w') \<Rightarrow> (None, w')
     | (Some x, w') \<Rightarrow> (case run_state d w' of (None, w2) \<Rightarrow> (None, w2) | (Some _, w2) \<Rightarrow> (Some x, w2)))"
  by (simp add: owning_def split: prod.split option.split)

lemmas run_async = run_aq run_sync run_owning

lemma await_ready: "run_state poll w = (Ready x, w') \<Longrightarrow> run_state (await poll es) w = (Some x, w')"
  by (cases es) simp_all

lemma resolve_slice:
  "run_state (resolve p ot cx (State_Monad.return (Ok (Slice as)))) w = (Some (Ok (SliceIter as)), w)"
  by (simp add: resolve_def run_async await_ready [of _ _ _ w] to_socket_addrs_poll_def)

text \<open>Dropping the iterator after the loop.\<close>

fun iter_drop_calls :: "to_socket_addrs_iter \<Rightarrow> call list" where
  "iter_drop_calls (FutureIter it) = [FreeAddrInfoExW (addrinfo it)]"
| "iter_drop_calls _ = []"

lemma run_iter_drop: "run_state (to_socket_addrs_iter_drop p it) w = ((), logged (iter_drop_calls it) w)"
  by (cases it) (simp_all add: gai_iter_drop_def run_logged)

section \<open>Binding\<close>

abbreviation bind_call :: "ptr \<Rightarrow> socket_addr \<Rightarrow> call" where
  "bind_call s a \<equiv> WinBind s (RawAddr a)"

text \<open>The answer to the \<open>j\<close>-th bind, when those before it failed.\<close>

abbreviation bind_answer :: "platform \<Rightarrow> ptr \<Rightarrow> call list \<Rightarrow> socket_addr list \<Rightarrow> nat \<Rightarrow> int" where
  "bind_answer p s l as j \<equiv> win p (l @ map (bind_call s) (take j as)) (bind_call s (as ! j))"

lemma bind_answer_Cons: "bind_answer p s l (a # as) (Suc j) = bind_answer p s (l @ [bind_call s a]) as j"
  by simp

lemma over_list_bind_none:
  assumes "\<forall>j < length as. bind_answer p s (wlog w) as j \<noteq> 0"
  shows "run_state (over_list (bind_attempt p s) as (False, n)) w =
    (Some (False, n + length as), logged (map (bind_call s) as) w)"
  using assms
proof (induction as arbitrary: n w)
  case (Cons a as)
  have "\<forall>j < length as. bind_answer p s (wlog (logged [bind_call s a] w)) as j \<noteq> 0"
    using Cons.prems bind_answer_Cons [where p = p and s = s and l = "wlog w" and a = a and as = as] by (metis Suc_less_eq length_Cons logged_simps(5))
  from Cons.IH [OF this] Cons.prems show ?case by (auto simp: bind_attempt_def run_logged)
qed simp

lemma over_list_bind_first:
  assumes "k < length as" and "\<forall>j < k. bind_answer p s (wlog w) as j \<noteq> 0" and "bind_answer p s (wlog w) as k = 0"
  shows "run_state (over_list (bind_attempt p s) as (False, n)) w =
    (Some (True, n + Suc k), logged (map (bind_call s) (take (Suc k) as)) w)"
  using assms
proof (induction as arbitrary: n w k)
  case (Cons a as)
  show ?case
  proof (cases k)
    case 0
    then show ?thesis using Cons.prems(3) by (simp add: bind_attempt_def run_logged)
  next
    case (Suc k')
    let ?w = "logged [bind_call s a] w"
    have "\<forall>j < k'. bind_answer p s (wlog ?w) as j \<noteq> 0" "bind_answer p s (wlog ?w) as k' = 0"
      using Cons.prems(2,3) Suc bind_answer_Cons [where p = p and s = s and l = "wlog w" and a = a and as = as] by (metis Suc_less_eq logged_simps(5))+
    with Cons.IH [of k' ?w] Cons.prems(1,2) Suc show ?thesis by (auto simp: bind_attempt_def run_logged)
  qed
qed simp

lemma run_bind_addrs:
  assumes "iter_ok m fuel it" and "length (iter_items m fuel it) < fuel"
    and "run_state (resolve p ot cx addr) v0 = (Some (Ok it), v)"
    and "run_state (over_list (bind_attempt p s) (iter_items m fuel it) (False, 0)) v = (Some c, v')"
  shows "run_state (aq (resolve p ot cx addr) (\<lambda>addrs. do {
       c \<leftarrow> iterate (to_socket_addrs_iter_next m fuel) fuel (bind_attempt p s) addrs (False, 0);
       case c of
         None \<Rightarrow> State_Monad.return None
       | Some c \<Rightarrow> do {
           _ \<leftarrow> to_socket_addrs_iter_drop p addrs;
           sync (bind_finish p s f g c) } })) v0 =
    run_state (sync (bind_finish p s f g c)) (logged (iter_drop_calls it) v')"
  using assms(3,4)
  by (simp add: run_aq run_iter_drop tsa.iterate_items [OF assms(1,2)])

lemma bind_stages:
  fixes p :: platform and w :: io_world
  defines "l \<equiv> wlog w"
  defines "s \<equiv> win p l WSASocketW"
  defines "io1 \<equiv> WSAIoctl s WSAID_ACCEPTEX" and "io2 \<equiv> WSAIoctl s WSAID_GETACCEPTEXSOCKADDRS"
  assumes "s \<noteq> c_INVALID_SOCKET p"
    and "win p (l @ [WSASocketW]) io1 = 0 \<and> outp p (l @ [WSASocketW]) io1 \<noteq> 0"
    and "win p (l @ [WSASocketW, io1]) io2 = 0 \<and> outp p (l @ [WSASocketW, io1]) io2 \<noteq> 0"
  shows "run_state (tcp_bind p m fuel ot cx addr) w =
    run_state (aq (resolve p ot cx addr) (\<lambda>addrs. do {
       c \<leftarrow> iterate (to_socket_addrs_iter_next m fuel) fuel (bind_attempt p s) addrs (False, 0);
       case c of
         None \<Rightarrow> State_Monad.return None
       | Some c \<Rightarrow> do {
           _ \<leftarrow> to_socket_addrs_iter_drop p addrs;
           sync (bind_finish p s (outp p (l @ [WSASocketW]) io1) (outp p (l @ [WSASocketW, io1]) io2) c) } }))
      (logged [WSASocketW, io1, io2] w)"
  using assms(5-)
  by (simp add: tcp_bind_def run_aq [of "sync _"] run_sync socket_new_def extension_function_def run_logged
      l_def s_def io1_def io2_def cong: option.case_cong)

text \<open>
  Property C21: \<open>bind\<close> takes the first address that can be bound, and fails with the error of the call
  that failed. If the socket or one of the two extension functions cannot be had, it fails with what
  \<open>GetLastError\<close> says then, without looking up the name; what the lookup fails with is passed on.
  Otherwise it binds the addresses of the iterator in order, up to the first that succeeds, frees
  the list of addresses, and listens on the socket; if that fails, or no address could be bound, it
  fails with what \<open>GetLastError\<close> says at that point, and if there is no address, with \<open>NotFound\<close>. The
  calls are given on each path: on none that fails is the socket closed.
\<close>

theorem bind_takes_first:
  fixes p :: platform and w :: io_world and m :: addrinfo_mem and fuel :: nat and ot :: others and cx :: waker
    and addr :: "(io_world, to_socket_addrs res) state"
  defines "run \<equiv> run_state (tcp_bind p m fuel ot cx addr) w"
  defines "l \<equiv> wlog w"
  defines "s \<equiv> win p l WSASocketW"
  defines "io1 \<equiv> WSAIoctl s WSAID_ACCEPTEX" and "io2 \<equiv> WSAIoctl s WSAID_GETACCEPTEXSOCKADDRS"
  defines "got \<equiv> \<lambda>l c. win p l c = 0 \<and> outp p l c \<noteq> 0"
  defines "error \<equiv> \<lambda>l. Some (Err (Os (win p l GetLastError)))"
  shows "(s = c_INVALID_SOCKET p \<longrightarrow> run = (error (l @ [WSASocketW]), logged [WSASocketW, GetLastError] w)) \<and>
    (s \<noteq> c_INVALID_SOCKET p \<and> \<not> got (l @ [WSASocketW]) io1 \<longrightarrow>
      run = (error (l @ [WSASocketW, io1]), logged [WSASocketW, io1, GetLastError] w)) \<and>
    (s \<noteq> c_INVALID_SOCKET p \<and> got (l @ [WSASocketW]) io1 \<and> \<not> got (l @ [WSASocketW, io1]) io2 \<longrightarrow>
      run = (error (l @ [WSASocketW, io1, io2]), logged [WSASocketW, io1, io2, GetLastError] w)) \<and>
    (s \<noteq> c_INVALID_SOCKET p \<and> got (l @ [WSASocketW]) io1 \<and> got (l @ [WSASocketW, io1]) io2 \<longrightarrow>
      (\<forall>r v. run_state (resolve p ot cx addr) (logged [WSASocketW, io1, io2] w) = (r, v) \<longrightarrow>
        (r = None \<longrightarrow> run = (None, v)) \<and>
        (\<forall>e. r = Some (Err e) \<longrightarrow> run = (Some (Err e), v)) \<and>
        (\<forall>f. r = Some (Fault f) \<longrightarrow> run = (Some (Fault f), v)) \<and>
        (\<forall>it as freed. r = Some (Ok it) \<longrightarrow> iter_ok m fuel it \<longrightarrow> as = iter_items m fuel it \<longrightarrow> length as < fuel \<longrightarrow>
          freed = iter_drop_calls it \<longrightarrow>
          (as = [] \<longrightarrow> run = (Some (Err not_resolved), logged freed v)) \<and>
          (as \<noteq> [] \<and> (\<forall>j < length as. bind_answer p s (wlog v) as j \<noteq> 0) \<longrightarrow>
            run = (error (wlog v @ map (bind_call s) as @ freed), logged (map (bind_call s) as @ freed @ [GetLastError]) v)) \<and>
          (\<forall>k cs. k < length as \<and> (\<forall>j < k. bind_answer p s (wlog v) as j \<noteq> 0) \<and> bind_answer p s (wlog v) as k = 0 \<longrightarrow>
            cs = map (bind_call s) (take (Suc k) as) @ freed @ [WinListen s] \<longrightarrow>
            run = (if win p (wlog v @ butlast cs) (WinListen s) = 0
              then (Some (Ok \<lparr>li_socket = s, li_acceptex = outp p (l @ [WSASocketW]) io1,
                  li_gaesa = outp p (l @ [WSASocketW, io1]) io2\<rparr>), logged cs v)
              else (error (wlog v @ cs), logged (cs @ [GetLastError]) v))))))"
proof (intro conjI impI allI)
  note defs = run_def l_def s_def io1_def io2_def got_def error_def
  note stages = tcp_bind_def run_aq [of "sync _"] run_sync socket_new_def extension_function_def run_logged
  show "run = (error (l @ [WSASocketW]), logged [WSASocketW, GetLastError] w)" if "s = c_INVALID_SOCKET p"
    using that by (simp add: defs stages)
  show "run = (error (l @ [WSASocketW, io1]), logged [WSASocketW, io1, GetLastError] w)"
    if "s \<noteq> c_INVALID_SOCKET p \<and> \<not> got (l @ [WSASocketW]) io1"
    using that by (auto simp: defs stages)
  show "run = (error (l @ [WSASocketW, io1, io2]), logged [WSASocketW, io1, io2, GetLastError] w)"
    if "s \<noteq> c_INVALID_SOCKET p \<and> got (l @ [WSASocketW]) io1 \<and> \<not> got (l @ [WSASocketW, io1]) io2"
    using that by (auto simp: defs stages)
next
  fix r v
  assume "s \<noteq> c_INVALID_SOCKET p \<and> got (l @ [WSASocketW]) io1 \<and> got (l @ [WSASocketW, io1]) io2"
    and res: "run_state (resolve p ot cx addr) (logged [WSASocketW, io1, io2] w) = (r, v)"
  then have run: "run = run_state (aq (resolve p ot cx addr) (\<lambda>addrs. do {
       c \<leftarrow> iterate (to_socket_addrs_iter_next m fuel) fuel (bind_attempt p s) addrs (False, 0);
       case c of
         None \<Rightarrow> State_Monad.return None
       | Some c \<Rightarrow> do {
           _ \<leftarrow> to_socket_addrs_iter_drop p addrs;
           sync (bind_finish p s (outp p (l @ [WSASocketW]) io1) (outp p (l @ [WSASocketW, io1]) io2) c) } }))
      (logged [WSASocketW, io1, io2] w)"
    unfolding run_def l_def s_def io1_def io2_def got_def by (intro bind_stages) auto
  show "run = (None, v)" if "r = None" using res that by (simp add: run run_aq)
  show "run = (Some (Err e), v)" if "r = Some (Err e)" for e using res that by (simp add: run run_aq)
  show "run = (Some (Fault f), v)" if "r = Some (Fault f)" for f using res that by (simp add: run run_aq)
  fix it as freed
  assume "r = Some (Ok it)" and it: "iter_ok m fuel it" "as = iter_items m fuel it" "length as < fuel"
    and freed: "freed = iter_drop_calls it"
  then have res: "run_state (resolve p ot cx addr) (logged [WSASocketW, io1, io2] w) = (Some (Ok it), v)"
    using res by simp
  have finish: "run = run_state (sync (bind_finish p s (outp p (l @ [WSASocketW]) io1) (outp p (l @ [WSASocketW, io1]) io2) c))
      (logged freed v')" if "run_state (over_list (bind_attempt p s) as (False, 0)) v = (Some c, v')" for c v'
    using that unfolding run freed it(2) by (rule run_bind_addrs [OF it(1) it(3) [unfolded it(2)] res])
  show "run = (Some (Err not_resolved), logged freed v)" if "as = []"
    using finish [of "(False, 0)" v] that by (simp add: run_sync bind_finish_def)
  show "run = (error (wlog v @ map (bind_call s) as @ freed), logged (map (bind_call s) as @ freed @ [GetLastError]) v)"
    if "as \<noteq> [] \<and> (\<forall>j < length as. bind_answer p s (wlog v) as j \<noteq> 0)"
    using finish [OF over_list_bind_none] that by (simp add: run_sync bind_finish_def run_logged error_def)
  fix k cs
  assume k: "k < length as \<and> (\<forall>j < k. bind_answer p s (wlog v) as j \<noteq> 0) \<and> bind_answer p s (wlog v) as k = 0"
    and cs: "cs = map (bind_call s) (take (Suc k) as) @ freed @ [WinListen s]"
  then have "k < length as" "\<forall>j < k. bind_answer p s (wlog v) as j \<noteq> 0" "bind_answer p s (wlog v) as k = 0" by blast+
  from finish [OF over_list_bind_first [OF this]]
  show "run = (if win p (wlog v @ butlast cs) (WinListen s) = 0
      then (Some (Ok \<lparr>li_socket = s, li_acceptex = outp p (l @ [WSASocketW]) io1,
          li_gaesa = outp p (l @ [WSASocketW, io1]) io2\<rparr>), logged cs v)
      else (error (wlog v @ cs), logged (cs @ [GetLastError]) v))"
    by (simp add: cs run_sync bind_finish_def run_logged error_def butlast_append)
qed

section \<open>Connecting\<close>

abbreviation connect_call :: "ptr \<Rightarrow> socket_addr \<Rightarrow> call" where
  "connect_call s a \<equiv> ConnectEx s a sizeof_SOCKADDR (sockaddr_len a)"

text \<open>What other threads do while an attempt waits: nothing with the socket or its event.\<close>

fun touches :: "ptr \<Rightarrow> call \<Rightarrow> bool" where
  "touches s (ConnectEx s' a n m) \<longleftrightarrow> s' = s"
| "touches s (closesocket s') \<longleftrightarrow> s' = s"
| "touches s _ \<longleftrightarrow> False"

definition elsewhere :: "ptr \<Rightarrow> io_event \<Rightarrow> (io_world \<Rightarrow> io_world) \<Rightarrow> bool" where
  "elsewhere s ev e \<longleftrightarrow> (\<forall>w. cores (e w) (ev_ov ev) = cores w (ev_ov ev) \<and> wctx (e w) = wctx w \<and>
     (\<exists>cs. wlog (e w) = wlog w @ cs \<and> \<not> list_ex (touches s) cs))"

text \<open>The calls with which a poll takes the result of a completed event, for \<open>event_answer\<close>.\<close>

definition take_calls :: "platform \<Rightarrow> io_event \<Rightarrow> ptr \<Rightarrow> u32 \<Rightarrow> io_world \<Rightarrow> call list" where
  "take_calls p ev h r w =
     (let l = wlog w; reset = ResetEvent (ev_hEvent ev); rearm = SetThreadpoolWait (ev_wait ev) (ev_hEvent ev);
          get = GetOverlappedResult h (ev_ov ev)
      in if win p l reset = 0 then [reset, GetLastError]
         else if r \<noteq> 0 then [reset, rearm]
         else if win p (l @ [reset, rearm]) get \<noteq> 0 then [reset, rearm, get]
         else [reset, rearm, get, GetLastError])"

text \<open>The world while an attempt is pending, and after other threads ran, with a poll after each.\<close>

definition pending_world :: "io_event \<Rightarrow> waker \<Rightarrow> call list \<Rightarrow> io_world \<Rightarrow> io_world" where
  "pending_world ev cx cs w = upd_core (ev_ov ev) (\<lambda>c. c\<lparr>aw := aw c @ [Register cx], st := PENDING\<rparr>) (logged cs w)"

definition polled_after :: "io_event \<Rightarrow> waker \<Rightarrow> (io_world \<Rightarrow> io_world) list \<Rightarrow> io_world \<Rightarrow> io_world" where
  "polled_after ev cx es w = fold (\<lambda>e w. upd_core (ev_ov ev) (\<lambda>c. c\<lparr>aw := aw c @ [Register cx]\<rparr>) (e w)) es w"

text \<open>
  How the attempt number \<open>k\<close>, to connect to \<open>a\<close>, can go, by what the system answers:
  \<open>ConnectEx\<close> succeeds at once; or it fails, with \<open>WSAEISCONN\<close> (10056), which counts as success, or with
  another error; or it is left pending (997), other threads run, the event is signalled with the
  result \<open>r\<close> of the wait, and the attempt ends with what \<open>event_answer\<close> makes of it.
\<close>

inductive attempt ::
  "platform \<Rightarrow> others \<Rightarrow> waker \<Rightarrow> ptr \<Rightarrow> io_event \<Rightarrow> nat \<Rightarrow> socket_addr \<Rightarrow> io_world \<Rightarrow> unit res \<Rightarrow> io_world \<Rightarrow> bool"
  for p ot cx s ev where
  at_once: "win p (wlog w) (connect_call s a) = c_TRUE p \<Longrightarrow>
    attempt p ot cx s ev k a w (Ok ()) (logged [connect_call s a] w)"
| answered: "win p (wlog w) (connect_call s a) \<noteq> c_TRUE p \<Longrightarrow>
    win p (wlog w @ [connect_call s a]) WSAGetLastError = e \<Longrightarrow> e \<noteq> 997 \<Longrightarrow>
    attempt p ot cx s ev k a w (if e = 10056 then Ok () else Err (Os e)) (logged [connect_call s a, WSAGetLastError] w)"
| completed: "win p (wlog w) (connect_call s a) \<noteq> c_TRUE p \<Longrightarrow>
    win p (wlog w @ [connect_call s a]) WSAGetLastError = 997 \<Longrightarrow>
    o_attempt ot k = es @ signal # rest \<Longrightarrow> list_all (elsewhere s ev) es \<Longrightarrow>
    signal = (\<lambda>w. snd (run_state (io_event_callback p [] ev r) w)) \<Longrightarrow>
    w2 = signal (polled_after ev cx es (pending_world ev cx [connect_call s a, WSAGetLastError] w)) \<Longrightarrow>
    attempt p ot cx s ev k a w (event_answer p ev (Some s) (io_result_set r 0) w2)
      (upd_core (ev_ov ev) (\<lambda>c. c\<lparr>st := IDLE\<rparr>) (logged (take_calls p ev s r w2) w2))"

text \<open>Attempts that all fail, with their errors.\<close>

inductive failing ::
  "platform \<Rightarrow> others \<Rightarrow> waker \<Rightarrow> ptr \<Rightarrow> io_event \<Rightarrow> nat \<Rightarrow> socket_addr list \<Rightarrow> io_world \<Rightarrow> io_error list \<Rightarrow> io_world \<Rightarrow> bool"
  for p ot cx s ev where
  none: "failing p ot cx s ev k [] w [] w"
| more: "attempt p ot cx s ev k a w (Err e) w' \<Longrightarrow> failing p ot cx s ev (Suc k) as w' es w'' \<Longrightarrow>
    failing p ot cx s ev k (a # as) w (e # es) w''"

lemma scheduling_world_sel [simp]:
  "wlog (scheduling_world ov w) = wlog w" "wctx (scheduling_world ov w) = wctx w"
  by (simp_all add: scheduling_world_def)

lemma idle_again:
  assumes "st (cores w ov) = IDLE"
  shows "upd_core ov (\<lambda>c. c\<lparr>st := IDLE\<rparr>) (logged cs (scheduling_world ov w)) = logged cs w"
proof -
  have "(cores w ov)\<lparr>st := IDLE\<rparr> = cores w ov" using assms by (cases "cores w ov") simp
  then show ?thesis by (simp add: scheduling_world_def upd_core_same)
qed

lemma pending_after_scheduling:
  "upd_core ov (\<lambda>c. c\<lparr>aw := aw c @ [Register cx], st := PENDING\<rparr>) (scheduling_world ov w) =
   upd_core ov (\<lambda>c. c\<lparr>aw := aw c @ [Register cx], st := PENDING\<rparr>) w"
  by (simp add: scheduling_world_def)

lemma run_event_take:
  assumes "st (cores w (ev_ov ev)) = READY" and "cell_at (ev_ov ev) w = io_result_set r 0"
  shows "run_state (io_event_poll p ev (Some s) cx sch) w =
    (Ready (event_answer p ev (Some s) (io_result_set r 0) w),
     upd_core (ev_ov ev) (\<lambda>c. c\<lparr>st := IDLE\<rparr>) (logged (take_calls p ev s r w) w))"
  using assms
  by (auto simp: io_event_poll_def run_simps run_logged io_state_ops event_answer_def take_calls_def Let_def
      io_result_get_set upd_core_same)

text \<open>What a run leaves of the context and adds to the log, but for the calls on the socket.\<close>

definition adds :: "ptr \<Rightarrow> call list \<Rightarrow> io_world \<Rightarrow> io_world \<Rightarrow> bool" where
  "adds s cs w w' \<longleftrightarrow> wctx w' = wctx w \<and> (\<exists>ds. wlog w' = wlog w @ ds \<and> filter (touches s) ds = cs)"

lemma adds_refl [simp]: "adds s [] w w"
  by (simp add: adds_def)

lemma adds_trans: "adds s cs w w1 \<Longrightarrow> adds s ds w1 w2 \<Longrightarrow> adds s (cs @ ds) w w2"
  by (auto simp: adds_def)

lemma adds_upd [simp]: "adds s cs w (upd_core ov f w') = adds s cs w w'" "adds s cs (upd_core ov f w) w' = adds s cs w w'"
  "adds s cs w (logged ds (upd_core ov f w')) = adds s cs w (logged ds w')"
  by (simp_all add: adds_def)

lemma adds_logged: "adds s (filter (touches s) cs) w (logged cs w)"
  by (simp add: adds_def)

lemma elsewhereD:
  "elsewhere s ev e \<Longrightarrow> adds s [] w (e w)" "elsewhere s ev e \<Longrightarrow> st (cores (e w) (ev_ov ev)) = st (cores w (ev_ov ev))"
  unfolding elsewhere_def adds_def by (metis filter_False list_ex_iff) (metis)

lemma signalled:
  fixes p :: platform and r :: u32
  assumes "st (cores w (ev_ov ev)) = PENDING"
  defines "w' \<equiv> snd (run_state (io_event_callback p [] ev r) w)"
  shows "st (cores w' (ev_ov ev)) = READY" and "cell_at (ev_ov ev) w' = io_result_set r 0" and "adds s [] w w'"
proof -
  have "w' = snd (run_state (wake_task p (ev_ov ev)) (upd_core (ev_ov ev) (\<lambda>c. c\<lparr>cell := io_result_set r 0, st := READY\<rparr>) w))"
    using io_event_callback_pending [where self = ev and w = w and p = p and env = "[]" and r = r] assms(1) by (simp add: w'_def valid_state_def)
  then show "st (cores w' (ev_ov ev)) = READY" "cell_at (ev_ov ev) w' = io_result_set r 0" "adds s [] w w'"
    by (auto simp: run_wake_task adds_def split: option.split)
qed

text \<open>From the poll that left the attempt pending to its end.\<close>

lemma await_signal:
  fixes p :: platform and ev :: io_event and r :: u32
  defines "signal \<equiv> \<lambda>w. snd (run_state (io_event_callback p [] ev r) w)"
  assumes "st (cores w (ev_ov ev)) = PENDING" and "list_all (elsewhere s ev) es"
    and "es @ signal # rest = x # xs" and "w2 = signal (polled_after ev cx es w)"
  shows "run_state (await (io_event_poll p ev (Some s) cx sch) xs) (x w) =
      (Some (event_answer p ev (Some s) (io_result_set r 0) w2),
       upd_core (ev_ov ev) (\<lambda>c. c\<lparr>st := IDLE\<rparr>) (logged (take_calls p ev s r w2) w2)) \<and> adds s [] w w2"
  using assms(2-)
proof (induction es arbitrary: w x xs)
  case Nil
  then have "x = signal" "xs = rest" "w2 = signal w" by (simp_all add: polled_after_def)
  then show ?case
    using await_ready [OF run_event_take [OF signalled(1,2) [OF Nil(1)]]] signalled(3) [OF Nil(1)]
    by (simp add: signal_def)
next
  case (Cons e es)
  let ?v = "upd_core (ev_ov ev) (\<lambda>c. c\<lparr>aw := aw c @ [Register cx]\<rparr>) (e w)"
  obtain y ys where y: "es @ signal # rest = y # ys" by (cases es) auto
  have x: "x = e" "xs = y # ys" using Cons.prems(3) y by simp_all
  have e: "st (cores (e w) (ev_ov ev)) = PENDING" "adds s [] w (e w)"
    using elsewhereD [where s = s and ev = ev and e = e and w = w] Cons.prems(1,2) by simp_all
  have poll: "run_state (io_event_poll p ev (Some s) cx sch) (e w) = (Pending, ?v)"
    by (rule io_event_poll_busy) (simp_all add: e valid_state_def)
  have "run_state (await (io_event_poll p ev (Some s) cx sch) ys) (y ?v) =
      (Some (event_answer p ev (Some s) (io_result_set r 0) w2),
       upd_core (ev_ov ev) (\<lambda>c. c\<lparr>st := IDLE\<rparr>) (logged (take_calls p ev s r w2) w2)) \<and> adds s [] ?v w2"
    using Cons.prems(2,4) by (intro Cons.IH [OF _ _ y]) (simp_all add: e polled_after_def)
  then show ?case using x poll adds_trans [OF e(2), of "[]" w2] by simp
qed

lemma take_calls_elsewhere: "filter (touches s) (take_calls p ev h r w) = []"
  by (simp add: take_calls_def Let_def)

lemma attempt_runs:
  assumes "attempt p ot cx s ev k a w r w'" and "st (cores w (ev_ov ev)) = IDLE"
  shows "run_state (connect_attempt p ot cx s ev a (r0, k)) w =
      (Some ((r, Suc k), case r of Err _ \<Rightarrow> False | _ \<Rightarrow> True), w')"
    and "st (cores w' (ev_ov ev)) = IDLE" and "adds s [connect_call s a] w w'"
  using assms
proof (atomize (full), induction rule: attempt.induct)
  case (at_once w a k)
  have "run_state (connect_poll p \<lparr>cn_socket = s, cn_event = ev, cn_addr = a, cn_len = sockaddr_len a\<rparr> cx) w =
      (Ready (Ok ()), logged [connect_call s a] w)"
    using at_once idle_again [OF at_once(2)]
    by (simp add: connect_poll_def io_event_poll_start connect_schedule_def run_logged)
  from await_ready [OF this] at_once(2) adds_logged [of s "[connect_call s a]" w] show ?case
    by (simp add: connect_attempt_def)
next
  case (answered w a e k)
  have "run_state (connect_poll p \<lparr>cn_socket = s, cn_event = ev, cn_addr = a, cn_len = sockaddr_len a\<rparr> cx) w =
      (Ready (if e = 10056 then Ok () else Err (Os e)), logged [connect_call s a, WSAGetLastError] w)"
    using answered idle_again [OF answered(4)]
    by (simp add: connect_poll_def io_event_poll_start connect_schedule_def run_logged)
  from await_ready [OF this] answered(4) adds_logged [of s "[connect_call s a, WSAGetLastError]" w] show ?case
    by (simp add: connect_attempt_def)
next
  case (completed w a k es signal rest r w2)
  let ?cn = "\<lparr>cn_socket = s, cn_event = ev, cn_addr = a, cn_len = sockaddr_len a\<rparr>"
  let ?v = "pending_world ev cx [connect_call s a, WSAGetLastError] w"
  have poll: "run_state (connect_poll p ?cn cx) w = (Pending, ?v)"
    using completed
    by (simp add: connect_poll_def io_event_poll_start connect_schedule_def run_logged pending_world_def
        pending_after_scheduling)
  obtain x xs where x: "es @ signal # rest = x # xs" by (cases es) auto
  have v: "st (cores ?v (ev_ov ev)) = PENDING" by (simp add: pending_world_def)
  from await_signal [OF v completed(4) x [unfolded completed(5)] completed(6) [unfolded completed(5)],
      of "connect_schedule p ?cn"]
  have run: "run_state (await (connect_poll p ?cn cx) (x # xs)) w =
      (Some (event_answer p ev (Some s) (io_result_set r 0) w2),
       upd_core (ev_ov ev) (\<lambda>c. c\<lparr>st := IDLE\<rparr>) (logged (take_calls p ev s r w2) w2))" and "adds s [] ?v w2"
    using poll by (simp_all add: connect_poll_def)
  have "adds s [connect_call s a] w ?v"
    by (simp add: pending_world_def adds_def)
  from adds_trans [OF this \<open>adds s [] ?v w2\<close>] have "adds s [connect_call s a] w w2" by simp
  from adds_trans [OF this adds_logged [of s "take_calls p ev s r w2"]]
  have "adds s [connect_call s a] w (logged (take_calls p ev s r w2) w2)" by (simp add: take_calls_elsewhere)
  then show ?case
    using run completed(3) x by (simp add: connect_attempt_def del: await.simps)
qed

lemma failing_runs:
  assumes "failing p ot cx s ev k as w es w'" and "st (cores w (ev_ov ev)) = IDLE"
  shows "run_state (over_list (connect_attempt p ot cx s ev) (as @ bs) (r0, k)) w =
      run_state (over_list (connect_attempt p ot cx s ev) bs (if as = [] then r0 else Err (last es), k + length as)) w'"
    and "st (cores w' (ev_ov ev)) = IDLE" and "adds s (map (connect_call s) as) w w'"
  using assms
proof (atomize (full), induction arbitrary: r0 rule: failing.induct)
  case (more k a w e w' as es w'')
  note a = attempt_runs [OF more(1,4)]
  have "es = [] \<longleftrightarrow> as = []" using more(2) by (cases rule: failing.cases) simp_all
  then show ?case
    using a(1) [of r0] more(3) [OF a(2), of "Err e"] adds_trans [OF a(3)] by fastforce
qed simp

text \<open>The setup of \<open>connect\<close> succeeds: the socket, its bind, \<open>ConnectEx\<close>, the event and the addresses.\<close>

definition set_up ::
  "platform \<Rightarrow> others \<Rightarrow> waker \<Rightarrow> (io_world, to_socket_addrs res) state \<Rightarrow> io_world \<Rightarrow>
     handle \<Rightarrow> ptr \<Rightarrow> io_event \<Rightarrow> to_socket_addrs_iter \<Rightarrow> io_world \<Rightarrow> bool" where
  "set_up p ot cx addr w h s ev it v \<longleftrightarrow> wctx w = Some h \<and>
     (\<exists>w1 w2 w3 w4 f. run_state (socket_new p) w = (Ok s, w1) \<and> run_state (connect_bind p s) w1 = (Ok (), w2) \<and>
       run_state (extension_function p s WSAID_CONNECTEX) w2 = (Ok f, w3) \<and>
       run_state (io_event_new p OvEvent (handle_callback_environ p h)) w3 = (Ok ev, w4) \<and>
       run_state (resolve p ot cx addr) w4 = (Some (Ok it), v)) \<and>
     wctx v = Some h \<and> st (cores v OvEvent) = IDLE"

lemma io_event_new_ok:
  "run_state (io_event_new p ov ce) w = (Ok ev, w') \<Longrightarrow> ev_wait ev \<noteq> 0 \<and> ev_ov ev = ov"
  by (auto simp: io_event_new_def run_simps split: if_splits prod.splits)

lemma set_upD:
  assumes "set_up p ot cx addr w h s ev it v"
  shows "ev_wait ev \<noteq> 0" "ev_ov ev = OvEvent" "wctx v = Some h" "st (cores v (ev_ov ev)) = IDLE"
  using assms io_event_new_ok unfolding set_up_def by metis+

lemma run_set_up:
  assumes "set_up p ot cx addr w h s ev it v"
    and "iter_ok m fuel it" and "length (iter_items m fuel it) < fuel"
    and "run_state (over_list (connect_attempt p ot cx s ev) (iter_items m fuel it) (Err (Os 0), 0)) v = (Some c, v')"
  shows "run_state (tcp_connect p m fuel ot cx addr) w =
    run_state (owning (io_event_drop p (o_drop ot) ev) (connect_finish p s c)) (logged (iter_drop_calls it) v')"
proof -
  have "run_state (connect_addrs p m fuel ot cx s ev it) v = run_state (connect_finish p s c) (logged (iter_drop_calls it) v')"
    using assms(4) by (simp add: connect_addrs_def tsa.iterate_items [OF assms(2,3)] run_iter_drop)
  then show ?thesis
    using assms(1) by (auto simp: tcp_connect_def run_async run_current set_up_def)
qed

lemma drop_idle_event:
  assumes "st (cores w (ev_ov ev)) = IDLE" and "ev_wait ev \<noteq> 0"
  shows "run_state (io_event_drop p env ev) w =
    (Some (), logged (notify_calls w @ [CloseThreadpoolWait (ev_wait ev), CloseHandle (ev_hEvent ev)]) w)"
  using assms by (simp add: run_io_event_drop Let_def is_busy_def logged_def)

lemma own_calls:
  assumes "adds s cs v w'" and "wlog w'' = wlog w' @ ds" and "filter (touches s) ds = []"
  shows "filter (touches s) (drop (length (wlog v)) (wlog w'')) = cs"
  using assms by (auto simp: adds_def)

lemma not_on_socket:
  "filter (touches s) (iter_drop_calls it) = []" "filter (touches s) (notify_calls w) = []"
  by (cases it) (auto simp: notify_calls_def split: option.split)

text \<open>
  Property C11: \<open>connect\<close> takes the first address that can be reached, whichever way \<open>ConnectEx\<close> answers: at
  once, with an error, or later through the event. Once the setup has succeeded, in the context
  \<open>h\<close>, let the attempts at the addresses before \<open>b\<close> fail, and the one at \<open>b\<close> succeed, for whatever
  system and whatever other threads do meanwhile with other objects. Then \<open>connect\<close> returns a
  stream of its one socket, bound to the thread pool, with two idle halves, when the I/O object can be created; it
  has called \<open>ConnectEx\<close> for these addresses in order, and for no other, has not closed the socket, and has freed
  the addresses and closed its event.
\<close>

theorem connect_takes_first:
  assumes "set_up p ot cx addr w h s ev it v" and "iter_ok m fuel it" and "length (iter_items m fuel it) < fuel"
    and "iter_items m fuel it = as @ b # bs"
    and "failing p ot cx s ev 0 as v es v1" and "attempt p ot cx s ev (length as) b v1 (Ok ()) v2"
    and "win p (wlog v2 @ iter_drop_calls it) (CreateThreadpoolIo s (handle_callback_environ p h)) \<noteq> 0"
  shows "\<exists>stream w'. run_state (tcp_connect p m fuel ot cx addr) w = (Some (Ok stream), w') \<and>
      io_hd (ts_inner stream) = s \<and> is_socket p (ts_inner stream) \<and>
      cores w' OvRead = io_core_new \<and> cores w' OvWrite = io_core_new \<and>
      wlog w' = wlog v2 @ iter_drop_calls it @ [CreateThreadpoolIo s (handle_callback_environ p h)] @ notify_calls v2 @
        [CloseThreadpoolWait (ev_wait ev), CloseHandle (ev_hEvent ev)] \<and>
      filter (touches s) (drop (length (wlog v)) (wlog w')) = map (connect_call s) (as @ [b])"
proof -
  let ?ce = "handle_callback_environ p h"
  let ?v3 = "logged (iter_drop_calls it) v2"
  note ev = set_upD [OF assms(1)]
  note as = failing_runs [OF assms(5) ev(4)]
  note b = attempt_runs [OF assms(6) as(2)]
  have over: "run_state (over_list (connect_attempt p ot cx s ev) (iter_items m fuel it) (Err (Os 0), 0)) v =
      (Some (Ok (), Suc (length as)), v2)"
    unfolding assms(4) as(1) by (simp add: b(1))
  have adds: "adds s (map (connect_call s) (as @ [b])) v v2" using adds_trans [OF as(3) b(3)] by simp
  then have ctx: "wctx v2 = Some h" using ev(3) by (simp add: adds_def)
  obtain r w2 where new: "run_state (socket_handle_new p s ?ce) ?v3 = (r, w2)" by fastforce
  obtain ioh where r: "r = Ok ioh" and w2: "w2 = logged [CreateThreadpoolIo s ?ce]
      (upd_core OvWrite (\<lambda>_. io_core_new) (upd_core OvRead (\<lambda>_. io_core_new) ?v3))"
    using new assms(7)
    by (auto simp: socket_handle_new_def io_handle_new_def io_half_new_def run_logged Let_def)
  have ioh: "is_socket p ioh" "io_hd ioh = s"
    using socket_handle_new_is_socket [of p s ?ce ?v3 ioh w2] new r by simp_all
  have "notify_calls w2 = notify_calls v2" unfolding w2 by (simp add: notify_calls_def)
  moreover have "st (cores w2 (ev_ov ev)) = IDLE" unfolding w2 using b(2) ev(2) by simp
  note drop = drop_idle_event [OF this ev(1), of p "o_drop ot"]
  ultimately have run: "run_state (tcp_connect p m fuel ot cx addr) w = (Some (Ok \<lparr>ts_inner = ioh\<rparr>),
      logged (notify_calls v2 @ [CloseThreadpoolWait (ev_wait ev), CloseHandle (ev_hEvent ev)]) w2)"
    using run_set_up [OF assms(1-3) over] new r ctx
    by (simp add: run_async connect_finish_def run_logged)
  let ?w' = "logged (notify_calls v2 @ [CloseThreadpoolWait (ev_wait ev), CloseHandle (ev_hEvent ev)]) w2"
  have log: "wlog ?w' = wlog v2 @ iter_drop_calls it @ [CreateThreadpoolIo s ?ce] @ notify_calls v2 @
      [CloseThreadpoolWait (ev_wait ev), CloseHandle (ev_hEvent ev)]" by (simp add: w2)
  moreover have "filter (touches s) (drop (length (wlog v)) (wlog ?w')) = map (connect_call s) (as @ [b])"
    using not_on_socket [of s] by (intro own_calls [OF adds log]) auto
  moreover have "cores ?w' OvRead = io_core_new" "cores ?w' OvWrite = io_core_new" by (simp_all add: w2)
  ultimately show ?thesis
    using run ioh by (intro exI [of _ "\<lparr>ts_inner = ioh\<rparr>"] exI [of _ ?w']) (simp del: logged_simps(5))
qed

text \<open>
  Property C39: when no address can be reached, \<open>connect\<close> fails with the error of the last attempt
  (with \<open>NotFound\<close> if there is no address), whether the attempts were refused at once or completed
  with an error later. It has called \<open>ConnectEx\<close> for all addresses in order, has freed them and closed its
  event; the socket it created is not closed.
\<close>

theorem connect_failure_leaks_socket:
  assumes "set_up p ot cx addr w h s ev it v" and "iter_ok m fuel it" and "length (iter_items m fuel it) < fuel"
    and "failing p ot cx s ev 0 (iter_items m fuel it) v es v1"
  shows "\<exists>w'. run_state (tcp_connect p m fuel ot cx addr) w =
      (Some (Err (if iter_items m fuel it = [] then not_resolved else last es)), w') \<and>
      wlog w' = wlog v1 @ iter_drop_calls it @ notify_calls v1 @ [CloseThreadpoolWait (ev_wait ev), CloseHandle (ev_hEvent ev)] \<and>
      filter (touches s) (drop (length (wlog v)) (wlog w')) = map (connect_call s) (iter_items m fuel it) \<and>
      closesocket s \<notin> set (drop (length (wlog v)) (wlog w'))"
proof -
  let ?as = "iter_items m fuel it"
  let ?v2 = "logged (iter_drop_calls it) v1"
  note ev = set_upD [OF assms(1)]
  note as = failing_runs [OF assms(4) ev(4)]
  have over: "run_state (over_list (connect_attempt p ot cx s ev) ?as (Err (Os 0), 0)) v =
      (Some (if ?as = [] then Err (Os 0) else Err (last es), length ?as), v1)"
    using as(1) [of "[]" "Err (Os 0)"] by simp
  have "notify_calls ?v2 = notify_calls v1" by (simp add: notify_calls_def)
  moreover have "st (cores ?v2 (ev_ov ev)) = IDLE" using as(2) by simp
  note drop = drop_idle_event [OF this ev(1), of p "o_drop ot"]
  ultimately have run: "run_state (tcp_connect p m fuel ot cx addr) w =
      (Some (Err (if ?as = [] then not_resolved else last es)),
       logged (iter_drop_calls it @ notify_calls v1 @ [CloseThreadpoolWait (ev_wait ev), CloseHandle (ev_hEvent ev)]) v1)"
    using run_set_up [OF assms(1-3) over] by (auto simp: run_async connect_finish_def)
  let ?w' = "logged (iter_drop_calls it @ notify_calls v1 @ [CloseThreadpoolWait (ev_wait ev), CloseHandle (ev_hEvent ev)]) v1"
  have own: "filter (touches s) (drop (length (wlog v)) (wlog ?w')) = map (connect_call s) ?as"
    using not_on_socket [of s] by (intro own_calls [OF as(3)]) auto
  have "closesocket s \<notin> set (drop (length (wlog v)) (wlog ?w'))"
  proof
    assume "closesocket s \<in> set (drop (length (wlog v)) (wlog ?w'))"
    then have "closesocket s \<in> set (filter (touches s) (drop (length (wlog v)) (wlog ?w')))" by simp
    then show False unfolding own by auto
  qed
  with run own show ?thesis by (intro exI [of _ ?w']) simp
qed

section \<open>Witnesses\<close>

text \<open>
  A system on which \<open>ConnectEx\<close> is always left pending, one address is refused with the error 1225 when the
  event is signalled and cannot be bound, and every other call succeeds.
\<close>

definition closed_addr :: socket_addr where "closed_addr = V4 (SocketAddrV4 1 80)"
definition open_addr :: socket_addr where "open_addr = V4 (SocketAddrV4 2 80)"

definition sample_answers :: "call list \<Rightarrow> call \<Rightarrow> int" where
  "sample_answers l c = (case c of
      WSASocketW \<Rightarrow> 5 | CreateEventW \<Rightarrow> 6 | CreateThreadpoolWait _ \<Rightarrow> 7 | CreateThreadpoolIo _ _ \<Rightarrow> 9
    | WSAIoctl _ _ \<Rightarrow> 0 | WinListen _ \<Rightarrow> 0
    | WinBind _ (RawAddr a) \<Rightarrow> (if a = closed_addr then -1 else 0) | WinBind _ _ \<Rightarrow> 0
    | ConnectEx _ _ _ _ \<Rightarrow> 0 | WSAGetLastError \<Rightarrow> 997
    | GetOverlappedResult _ _ \<Rightarrow> (if connect_call 5 open_addr \<in> set l then 1 else 0)
    | GetLastError \<Rightarrow> 1225
    | _ \<Rightarrow> 1)"

definition sample_net :: platform where
  "sample_net = (sample_platform (\<lambda>_. 0))\<lparr>win := sample_answers\<rparr>"

definition sample_event :: io_event where
  "sample_event = \<lparr>ev_wait = 7, ev_hEvent = 6, ev_ov = OvEvent\<rparr>"

definition sample_others :: others where
  "sample_others = \<lparr>o_lookup = [], o_attempt = (\<lambda>_. [\<lambda>w. snd (run_state (io_event_callback sample_net [] sample_event 0) w)]),
     o_drop = []\<rparr>"

definition sample_context :: handle where
  "sample_context = \<lparr>inner = \<lparr>high_work = 11, normal_work = 12, low_work = 13,
      inner_environ = base_environ sample_net 1 2\<rparr>, h_priority = Normal, callback_instance = None\<rparr>"

definition net_world :: io_world where
  "net_world = idle_world\<lparr>wctx := Some sample_context\<rparr>"

lemma net_world_sel [simp]: "wctx net_world = Some sample_context" "wlog net_world = []"
  "cores net_world ov = io_core_new"
  by (simp_all add: net_world_def)

lemma sample_addr_neq [simp]: "open_addr \<noteq> closed_addr" "closed_addr \<noteq> open_addr"
  by (simp_all add: open_addr_def closed_addr_def)

lemma sample_net_sel [simp]:
  "win sample_net = sample_answers" "outp sample_net l c = 8" "c_TRUE sample_net = 1" "c_INVALID_SOCKET sample_net = -1"
  by (simp_all add: sample_net_def sample_platform_def)

theorem bind_takes_first_witness:
  "run_state (tcp_bind sample_net sample_addrinfo 5 sample_others 1
      (State_Monad.return (Ok (Slice [closed_addr, open_addr, closed_addr])))) net_world =
    (Some (Ok \<lparr>li_socket = 5, li_acceptex = 8, li_gaesa = 8\<rparr>),
     logged [WSASocketW, WSAIoctl 5 WSAID_ACCEPTEX, WSAIoctl 5 WSAID_GETACCEPTEXSOCKADDRS,
       bind_call 5 closed_addr, bind_call 5 open_addr, WinListen 5] net_world)"
  using bind_takes_first [of sample_net net_world sample_addrinfo 5 sample_others 1
      "State_Monad.return (Ok (Slice [closed_addr, open_addr, closed_addr]))"]
  by (simp add: resolve_slice sample_answers_def) (elim conjE allE [of _ 1], simp)

text \<open>An attempt on that system, from any world.\<close>

lemma sample_attempt:
  defines "signal \<equiv> \<lambda>w. snd (run_state (io_event_callback sample_net [] sample_event 0) w)"
  shows "\<exists>w'. attempt sample_net sample_others 1 5 sample_event k a w
    (if connect_call 5 open_addr \<in> set (wlog w @ [connect_call 5 a]) then Ok () else Err (Os 1225)) w'"
proof -
  let ?v = "pending_world sample_event 1 [connect_call 5 a, WSAGetLastError] w"
  have "st (cores ?v (ev_ov sample_event)) = PENDING" by (simp add: pending_world_def)
  from signalled(3) [OF this, of 5 sample_net 0] obtain ds where
    "wlog (signal ?v) = wlog w @ [connect_call 5 a, WSAGetLastError] @ ds" "filter (touches 5) ds = []"
    by (auto simp: adds_def pending_world_def signal_def)
  then have log: "connect_call 5 open_addr \<in> set (wlog (signal ?v)) \<longleftrightarrow> connect_call 5 open_addr \<in> set (wlog w @ [connect_call 5 a])"
    by (auto simp: filter_empty_conv)
  have run: "attempt sample_net sample_others 1 5 sample_event k a w
      (event_answer sample_net sample_event (Some 5) (io_result_set 0 0) (signal ?v))
      (upd_core (ev_ov sample_event) (\<lambda>c. c\<lparr>st := IDLE\<rparr>) (logged (take_calls sample_net sample_event 5 0 (signal ?v)) (signal ?v)))"
    by (rule attempt.completed [where es = "[]" and rest = "[]"])
      (simp_all add: sample_answers_def sample_others_def signal_def polled_after_def)
  have answer: "event_answer sample_net sample_event (Some 5) (io_result_set 0 0) (signal ?v) =
      (if connect_call 5 open_addr \<in> set (wlog w @ [connect_call 5 a]) then Ok () else Err (Os 1225))"
    unfolding log [symmetric] by (simp add: event_answer_def io_result_get_set Let_def sample_answers_def)
  show ?thesis by (rule exI, rule run [unfolded answer])
qed

lemma sample_set_up:
  "\<exists>v. set_up sample_net sample_others 1 (State_Monad.return (Ok (Slice as))) net_world sample_context 5 sample_event
     (SliceIter as) v \<and> connect_call 5 open_addr \<notin> set (wlog v)"
  by (auto simp: set_up_def socket_new_def connect_bind_def extension_function_def io_event_new_def run_logged
      resolve_slice sample_event_def) (simp_all add: sample_answers_def)

theorem connect_takes_first_witness:
  "\<exists>stream w' l. run_state (tcp_connect sample_net sample_addrinfo 5 sample_others 1
      (State_Monad.return (Ok (Slice [closed_addr, open_addr, closed_addr])))) net_world = (Some (Ok stream), w') \<and>
    io_hd (ts_inner stream) = 5 \<and>
    filter (touches 5) (drop l (wlog w')) = [connect_call 5 closed_addr, connect_call 5 open_addr]"
proof -
  obtain v where v: "set_up sample_net sample_others 1 (State_Monad.return (Ok (Slice [closed_addr, open_addr, closed_addr])))
      net_world sample_context 5 sample_event (SliceIter [closed_addr, open_addr, closed_addr]) v"
    "connect_call 5 open_addr \<notin> set (wlog v)"
    using sample_set_up by blast
  obtain v1 where v1: "attempt sample_net sample_others 1 5 sample_event 0 closed_addr v (Err (Os 1225)) v1"
    using sample_attempt [of 0 closed_addr v] v(2) by auto
  then have fail: "failing sample_net sample_others 1 5 sample_event 0 [closed_addr] v [Os 1225] v1"
    by (blast intro: failing.intros)
  obtain v2 where v2: "attempt sample_net sample_others 1 5 sample_event (length [closed_addr]) open_addr v1 (Ok ()) v2"
    using sample_attempt [of "length [closed_addr]" open_addr v1] by auto
  from connect_takes_first [OF v(1) _ _ _ fail v2, of sample_addrinfo 5 "[closed_addr]"] show ?thesis
    by (auto simp: sample_answers_def)
qed

theorem connect_failure_leaks_socket_witness:
  "\<exists>w' l. run_state (tcp_connect sample_net sample_addrinfo 5 sample_others 1
      (State_Monad.return (Ok (Slice [closed_addr])))) net_world = (Some (Err (Os 1225)), w') \<and>
    filter (touches 5) (drop l (wlog w')) = [connect_call 5 closed_addr]"
proof -
  obtain v where v: "set_up sample_net sample_others 1 (State_Monad.return (Ok (Slice [closed_addr])))
      net_world sample_context 5 sample_event (SliceIter [closed_addr]) v" "connect_call 5 open_addr \<notin> set (wlog v)"
    using sample_set_up by blast
  obtain v1 where "attempt sample_net sample_others 1 5 sample_event 0 closed_addr v (Err (Os 1225)) v1"
    using sample_attempt [of 0 closed_addr v] v(2) by auto
  then have "failing sample_net sample_others 1 5 sample_event 0 (iter_items sample_addrinfo 5 (SliceIter [closed_addr])) v [Os 1225] v1"
    by (auto intro: failing.intros)
  from connect_failure_leaks_socket [OF v(1) _ _ this] show ?thesis by auto
qed

definition sample_stream :: tcp_stream where
  "sample_stream = \<lparr>ts_inner = \<lparr>io_hd = 5, ptp_io = 9, io_close = socket_close (sample_platform (\<lambda>_. 997)),
     io_read = \<lparr>half_overlapped = OvRead, half_schedule = recv_schedule (sample_platform (\<lambda>_. 997)),
       half_cancel = socket_cancel (sample_platform (\<lambda>_. 997))\<rparr>,
     io_write = \<lparr>half_overlapped = OvWrite, half_schedule = send_schedule (sample_platform (\<lambda>_. 997)),
       half_cancel = socket_cancel (sample_platform (\<lambda>_. 997))\<rparr>\<rparr>\<rparr>"

theorem stream_read_operation_witness:
  "let p = sample_platform (\<lambda>_. 997); b = \<lparr>buf_len = 10, buf_ptr = 99\<rparr>;
       pol = (\<lambda>w. run_state (poll_read (stream_async_read p [] sample_stream) 7 b) w)
   in fst (pol (snd (run_state (io_handle_callback p [] (ts_inner sample_stream) OvRead 0 10) (snd (pol net_world))))) =
        Ready (Ok 10)"
  using stream_read_operation [where p = "sample_platform (\<lambda>_. 997)" and self = sample_stream and w = net_world
      and r = 0 and n = 10 and env = "[]" and env' = "[]" and k = 7 and k' = 7 and buf = "\<lparr>buf_len = 10, buf_ptr = 99\<rparr>"]
  by (simp add: Let_def) (simp add: is_socket_def sample_stream_def)

definition sample_accept :: accept where
  "sample_accept = \<lparr>ac_listener = \<lparr>li_socket = 5, li_acceptex = 8, li_gaesa = 8\<rparr>, ac_client = Inr 15,
     ac_event = Inr \<lparr>ev_wait = 3, ev_hEvent = 4, ev_ov = OvEvent\<rparr>, ac_capacity = 88\<rparr>"

theorem accept_operation_witness:
  "let p = sample_platform (\<lambda>_. 997);
       w1 = snd (run_state (accept_poll p (\<lambda>_. Some open_addr) sample_accept 7) net_world);
       w2 = snd (run_state (io_event_callback p [] \<lparr>ev_wait = 3, ev_hEvent = 4, ev_ov = OvEvent\<rparr> 0) w1)
   in \<exists>stream w3. run_state (accept_poll p (\<lambda>_. Some open_addr) sample_accept 7) w2 = (Ready (Ok (stream, open_addr)), w3) \<and>
        io_hd (ts_inner stream) = 15"
proof -
  let ?p = "sample_platform (\<lambda>_. 997)"
  let ?ev = "\<lparr>ev_wait = 3, ev_hEvent = 4, ev_ov = OvEvent\<rparr>"
  have ac: "ac_client sample_accept = Inr 15" "ac_event sample_accept = Inr ?ev"
    by (simp_all add: sample_accept_def)
  have sch: "fst (run_state (accept_schedule ?p sample_accept 15 (ev_ov ?ev)) (scheduling_world (ev_ov ?ev) net_world)) = Pending"
    by (simp add: accept_schedule_def run_simps)
  let ?w2 = "snd (run_state (io_event_callback ?p [] ?ev 0)
      (snd (run_state (accept_poll ?p (\<lambda>_. Some open_addr) sample_accept 7) net_world)))"
  have "wctx ?w2 = Some sample_context"
    by (simp add: accept_poll_def ac io_event_poll_start accept_schedule_def run_simps scheduling_world_def
        io_event_callback_pending valid_state_def run_wake_task split: option.split)
  with accept_operation [OF ac _ _ sch, where env = "[]" and k = 7 and k' = 7 and as_std = "\<lambda>_. Some open_addr"
      and h = sample_context and a = open_addr]
  show ?thesis by (auto simp: Let_def event_answer_def io_result_get_set)
qed

end
