(* ===== verification/Io_Invariant.thy ===== *)
theory Io_Invariant
  imports Tcp_Props
begin

text \<open>
  Invariants of the shared memory. A computation \<open>keeps\<close> a predicate on worlds if it holds after
  the computation whenever it held before. The locale \<open>io_kept\<close> is the contract of a predicate
  that the elementary steps keep (a call to the system, a move of a state word, a write of a
  result cell or of a waker, a fresh core); every operation of the crate on that memory then keeps
  it. It is interpreted for the typing of the state words and for the cores an operation leaves
  alone. The last part says how each operation moves the word of its core.
\<close>

section \<open>Keeping a predicate\<close>

definition keeps :: "('s \<Rightarrow> bool) \<Rightarrow> ('s, 'a) state \<Rightarrow> bool" where
  "keeps I m \<longleftrightarrow> (\<forall>w. I w \<longrightarrow> I (snd (run_state m w)))"

definition env_keeps :: "('s \<Rightarrow> bool) \<Rightarrow> ('s \<Rightarrow> 's) list \<Rightarrow> bool" where
  "env_keeps I es \<longleftrightarrow> (\<forall>e \<in> set es. \<forall>w. I w \<longrightarrow> I (e w))"

named_theorems keeps_rules \<open>composed computations\<close>

lemma keeps_return [keeps_rules]: "keeps I (State_Monad.return x)"
  by (simp add: keeps_def)

lemma keeps_bind [keeps_rules]:
  "keeps I m \<Longrightarrow> (\<And>x. keeps I (f x)) \<Longrightarrow> keeps I (State_Monad.bind m f)"
  by (simp add: keeps_def split_beta)

lemma keeps_if [keeps_rules]: "keeps I a \<Longrightarrow> keeps I b \<Longrightarrow> keeps I (if c then a else b)"
  by simp

lemma keeps_option [keeps_rules]:
  "keeps I a \<Longrightarrow> (\<And>x. keeps I (b x)) \<Longrightarrow> keeps I (case y of None \<Rightarrow> a | Some x \<Rightarrow> b x)"
  by (simp split: option.split)

lemma keeps_res [keeps_rules]:
  "(\<And>x. keeps I (a x)) \<Longrightarrow> (\<And>x. keeps I (b x)) \<Longrightarrow> (\<And>x. keeps I (c x)) \<Longrightarrow>
   keeps I (case y of Ok x \<Rightarrow> a x | Err e \<Rightarrow> b e | Fault f \<Rightarrow> c f)"
  by (simp split: res.split)

lemma keeps_poll [keeps_rules]:
  "(\<And>x. keeps I (a x)) \<Longrightarrow> keeps I b \<Longrightarrow> keeps I (case y of Ready x \<Rightarrow> a x | Pending \<Rightarrow> b)"
  by (simp split: poll.split)

lemma keeps_sum [keeps_rules]:
  "(\<And>x. keeps I (a x)) \<Longrightarrow> (\<And>x. keeps I (b x)) \<Longrightarrow> keeps I (case y of Inl x \<Rightarrow> a x | Inr x \<Rightarrow> b x)"
  by (simp split: sum.split)

lemma keeps_prod [keeps_rules]: "(\<And>x y. keeps I (a x y)) \<Longrightarrow> keeps I (case z of (x, y) \<Rightarrow> a x y)"
  by (simp split: prod.split)

lemma keeps_qmark [keeps_rules]: "keeps I m \<Longrightarrow> (\<And>x. keeps I (f x)) \<Longrightarrow> keeps I (qmark m f)"
  unfolding qmark_def by (intro keeps_rules)

lemma keeps_aq [keeps_rules]: "keeps I m \<Longrightarrow> (\<And>x. keeps I (f x)) \<Longrightarrow> keeps I (aq m f)"
  unfolding aq_def by (intro keeps_rules)

lemma keeps_sync [keeps_rules]: "keeps I m \<Longrightarrow> keeps I (sync m)"
  unfolding sync_def by (intro keeps_rules)

lemma keeps_owning [keeps_rules]: "keeps I d \<Longrightarrow> keeps I m \<Longrightarrow> keeps I (owning d m)"
  unfolding owning_def by (intro keeps_rules)

lemma keeps_unwrap_then [keeps_rules]: "keeps I m \<Longrightarrow> keeps I r \<Longrightarrow> keeps I (unwrap_then m r)"
  unfolding unwrap_then_def by (intro keeps_rules)

lemma keeps_await:
  "keeps I poll \<Longrightarrow> env_keeps I es \<Longrightarrow> keeps I (await poll es)"
proof (induction es)
  case (Cons e es)
  then have "keeps I (await poll es)" "keeps I (State (\<lambda>w. ((), e w)))"
    by (simp_all add: env_keeps_def keeps_def)
  then show ?case using Cons.prems(1) unfolding await.simps by (intro keeps_rules)
qed (simp, intro keeps_rules)

lemma keeps_iterate [keeps_rules]:
  "(\<And>x c. keeps I (body x c)) \<Longrightarrow> keeps I (iterate nxt fuel body i c)"
proof (induction fuel arbitrary: i c)
  case (Suc fuel)
  then show ?case unfolding iterate.simps by (intro keeps_rules) auto
qed (simp, intro keeps_rules)

lemma spin_while_keeps:
  "env_keeps I es \<Longrightarrow> I w \<Longrightarrow> spin_while b es w = Some w' \<Longrightarrow> I w'"
  by (rule spin_while_invariant [of es I]) (auto simp: env_keeps_def)

lemma keeps_spin: "env_keeps I env \<Longrightarrow> keeps I (spin b env)"
  using spin_while_keeps [of I env] by (auto simp: keeps_def run_simps split: option.split)

lemma keeps_wctx [keeps_rules]: "keeps I current" "keeps I try_current"
  by (simp_all add: keeps_def run_simps)

section \<open>Operations keep what the steps keep\<close>

text \<open>The moves of a state word: they keep a valid word valid.\<close>

definition word_move :: "(usize \<Rightarrow> usize) \<Rightarrow> bool" where
  "word_move f \<longleftrightarrow> (\<forall>s. valid_state s \<longrightarrow> valid_state (f s))"

lemma word_moves [keeps_rules]:
  "word_move set_idle" "word_move set_pending" "word_move set_ready"
  "word_move (\<lambda>s. snd (schedule s))" "word_move (\<lambda>s. snd (finish s))" "word_move (\<lambda>s. snd (cancel wt s))"
  "word_move (\<lambda>s. snd (callback_cancelled_nowait s))" "word_move (\<lambda>s. snd (callback_cancelled_wait s))"
  "word_move (\<lambda>s. snd (compare_exchange PENDING CALLBACK s))"
  unfolding word_move_def
  by (simp_all add: iost.to_idle iost.to_pending iost.to_ready iost.begin_op iost.take iost.cancel_op
      iost.claim_nowait iost.claim_wait) (simp add: compare_exchange_def valid_state_def)

locale io_kept =
  fixes I :: "io_world \<Rightarrow> bool"
    and A :: "overlapped set"
  assumes log: "I w \<Longrightarrow> I (w\<lparr>wlog := wlog w @ l\<rparr>)"
    and word: "ov \<in> A \<Longrightarrow> I w \<Longrightarrow> word_move f \<Longrightarrow> I (upd_core ov (\<lambda>c. c\<lparr>st := f (st c)\<rparr>) w)"
    and result: "ov \<in> A \<Longrightarrow> I w \<Longrightarrow> I (upd_core ov (\<lambda>c. c\<lparr>cell := x\<rparr>) w)"
    and waker: "ov \<in> A \<Longrightarrow> I w \<Longrightarrow> I (upd_core ov (\<lambda>c. c\<lparr>aw := aw c @ ops\<rparr>) w)"
    and fresh: "ov \<in> A \<Longrightarrow> I w \<Longrightarrow> I (upd_core ov (\<lambda>_. io_core_new) w)"
begin

lemma steps:
  "keeps I (sys p c)" "keeps I (sys_out p c)" "keeps I (fail_last p)" "keeps I (notify_may_block p)"
  "ov \<in> A \<Longrightarrow> word_move (\<lambda>s. snd (g s)) \<Longrightarrow> keeps I (st_op ov g)"
  "ov \<in> A \<Longrightarrow> word_move f \<Longrightarrow> keeps I (st_set ov f)"
  "keeps I (st_load ov h)" "keeps I (cell_get ov)"
  "ov \<in> A \<Longrightarrow> keeps I (cell_set ov r n)"
  "ov \<in> A \<Longrightarrow> keeps I (register ov cx)" "ov \<in> A \<Longrightarrow> keeps I (wake_task p ov)"
  "ov \<in> A \<Longrightarrow> keeps I (State (\<lambda>w. (x, upd_core ov (\<lambda>_. io_core_new) w)))"
  by (auto simp: keeps_def run_simps run_wake_task result fresh word [where f = "\<lambda>s. snd (g s)"]
      intro: log waker word split: option.split)

lemma pending_claim:
  assumes "ov \<in> A" and "env_keeps I env"
  shows "keeps I (callback_pending_op ov env)"
proof -
  have "I (upd_core ov (\<lambda>c. c\<lparr>st := s\<rparr>) w)"
    if "I w" and "compare_exchange PENDING CALLBACK (st (cores w ov)) = (won, s)" for w won s
    using word [OF assms(1) that(1) word_moves(9)] that(2) by (simp add: upd_core_def)
  then show ?thesis
    using spin_while_keeps [OF assms(2)]
    by (auto simp: keeps_def callback_pending_op_def callback_pending_def Let_def split: option.split prod.split)
qed

lemmas kept = keeps_rules steps

text \<open>Events.\<close>

lemma event_drop: "env_keeps I env \<Longrightarrow> keeps I (io_event_drop p env self)"
  unfolding io_event_drop_def by (intro kept keeps_spin)

lemma event_new: "ov \<in> A \<Longrightarrow> keeps I (io_event_new p ov ce)"
  unfolding io_event_new_def by (intro kept event_drop) (simp_all add: env_keeps_def)

lemma event_callback: "ev_ov self \<in> A \<Longrightarrow> env_keeps I env \<Longrightarrow> keeps I (io_event_callback p env self r)"
  unfolding io_event_callback_def by (intro kept pending_claim)

lemma event_poll: "ev_ov self \<in> A \<Longrightarrow> keeps I sch \<Longrightarrow> keeps I (io_event_poll p self h cx sch)"
  unfolding io_event_poll_def by (intro kept)

text \<open>Handles.\<close>

lemma handle_callback: "ov \<in> A \<Longrightarrow> env_keeps I env \<Longrightarrow> keeps I (io_handle_callback p env self ov r n)"
  unfolding io_handle_callback_def by (intro kept pending_claim)

lemma handle_poll:
  "half_overlapped half \<in> A \<Longrightarrow> keeps I (half_schedule half (io_hd self) (half_overlapped half) buf) \<Longrightarrow>
   keeps I (io_handle_poll p self half cx buf)"
  unfolding io_handle_poll_def Let_def by (intro kept)

lemma handle_cancel:
  "half_overlapped half \<in> A \<Longrightarrow> env_keeps I env \<Longrightarrow> keeps I (half_cancel half (io_hd self) (half_overlapped half) wt) \<Longrightarrow>
   keeps I (io_handle_cancel p env self half wt)"
  unfolding io_handle_cancel_def Let_def by (intro kept keeps_spin)

lemma handle_drop:
  assumes "half_overlapped (io_read self) \<in> A" "half_overlapped (io_write self) \<in> A"
    and "env_keeps I env" "env_keeps I env'" "keeps I (io_close self (io_hd self))"
    and "keeps I (half_cancel (io_read self) (io_hd self) (half_overlapped (io_read self)) True)"
    and "keeps I (half_cancel (io_write self) (io_hd self) (half_overlapped (io_write self)) True)"
  shows "keeps I (io_handle_drop p env env' self)"
  using assms
  unfolding io_handle_drop_def io_handle_cancel_read_def io_handle_cancel_write_def
  by (intro kept handle_cancel)

text \<open>Sockets.\<close>

lemma socket_functions:
  "keeps I (socket_new p)" "keeps I (socket_close p h)" "keeps I (socket_cancel p h ov wt)"
  "keeps I (recv_schedule p h ov buf)" "keeps I (send_schedule p h ov buf)"
  unfolding socket_new_def socket_close_def socket_cancel_def recv_schedule_def send_schedule_def
  by (intro kept)+

lemma stream_poll:
  assumes "is_socket p (ts_inner self)"
  shows "OvRead \<in> A \<Longrightarrow> keeps I (poll_read (stream_async_read p env self) cx buf)"
    and "OvWrite \<in> A \<Longrightarrow> keeps I (poll_write (stream_async_write p env self) cx buf)"
  using assms
  by (auto simp: stream_async_read_def stream_async_write_def io_handle_poll_read_def
      io_handle_poll_write_def is_socket_def socket_functions intro!: handle_poll)

lemma stream_cancel:
  assumes "is_socket p (ts_inner self)" and "env_keeps I env"
  shows "OvRead \<in> A \<Longrightarrow> keeps I (cancel_read (stream_async_read p env self) wt)"
    and "OvWrite \<in> A \<Longrightarrow> keeps I (cancel_write (stream_async_write p env self) wt)"
  using assms
  by (auto simp: stream_async_read_def stream_async_write_def io_handle_cancel_read_def
      io_handle_cancel_write_def is_socket_def socket_functions intro!: handle_cancel)

end

text \<open>A predicate that the steps on every core keep.\<close>

locale io_kept_all = io_kept I UNIV for I
begin

text \<open>Lookups.\<close>

lemma lookup_new: "keeps I (get_addr_info p host port ce)"
  unfolding get_addr_info_def by (auto intro!: kept event_new split: prod.split)

lemma lookup_poll: "keeps I (gai_poll p self cx)"
proof -
  have "keeps I (gai_result p self)" by (simp add: gai_result_def keeps_def)
  then show ?thesis unfolding gai_poll_def gai_schedule_def by (intro kept event_poll UNIV_I)
qed

lemma addrs_poll: "keeps I (to_socket_addrs_poll p self cx)"
  unfolding to_socket_addrs_poll_def by (cases self) (auto intro!: kept lookup_poll)

lemma str_addrs: "keeps I (str_to_socket_addrs p s)" "keeps I (str_port_to_socket_addrs p sp)"
  unfolding str_to_socket_addrs_def str_port_to_socket_addrs_def by (intro kept lookup_new)+

lemma addrs_drop: "env_keeps I env \<Longrightarrow> keeps I (to_socket_addrs_drop p env a)"
  by (cases a) (auto intro!: kept event_drop)

lemma addrs_iter_drop: "keeps I (to_socket_addrs_iter_drop p it)"
  by (cases it) (auto simp: gai_iter_drop_def intro!: kept)

text \<open>Connecting, listening and accepting.\<close>

lemma stream_drop:
  assumes "is_socket p self" and "env_keeps I env" and "env_keeps I env'"
  shows "keeps I (io_handle_drop p env env' self)"
  using assms by (intro handle_drop) (auto simp: is_socket_def socket_functions)

lemma socket_handle: "keeps I (socket_handle_new p socket ce)"
proof -
  let ?h = "\<lparr>io_hd = socket, ptp_io = 0, io_close = socket_close p,
    io_read = \<lparr>half_overlapped = OvRead, half_schedule = recv_schedule p, half_cancel = socket_cancel p\<rparr>,
    io_write = \<lparr>half_overlapped = OvWrite, half_schedule = send_schedule p, half_cancel = socket_cancel p\<rparr>\<rparr>"
  have "keeps I (io_handle_drop p [] [] ?h)"
    by (intro handle_drop) (simp_all add: env_keeps_def socket_functions)
  then have "I w'" if "run_state (io_handle_drop p [] [] ?h) w = (x, w')" "I w" for w x w'
    using that unfolding keeps_def by (metis snd_conv)
  then show ?thesis
    by (auto simp: keeps_def socket_handle_new_def io_handle_new_def io_half_new_def Let_def run_simps
        log fresh split: prod.split)
qed


lemma resolving:
  "keeps I addr \<Longrightarrow> env_keeps I (o_drop ot) \<Longrightarrow> env_keeps I (o_lookup ot) \<Longrightarrow> keeps I (resolve p ot cx addr)"
  unfolding resolve_def by (intro kept addrs_drop keeps_await addrs_poll)

lemma connecting:
  assumes "keeps I addr" and "env_keeps I (o_drop ot)" and "env_keeps I (o_lookup ot)"
    and "\<And>n. env_keeps I (o_attempt ot n)"
  shows "keeps I (tcp_connect p m fuel ot cx addr)"
  using assms
  unfolding tcp_connect_def connect_addrs_def connect_attempt_def connect_poll_def connect_schedule_def
    connect_finish_def connect_bind_def extension_function_def
  by (intro kept socket_functions event_new event_drop resolving keeps_await event_poll addrs_iter_drop
      socket_handle UNIV_I)

lemma listening:
  assumes "keeps I addr" and "env_keeps I (o_drop ot)" and "env_keeps I (o_lookup ot)"
  shows "keeps I (tcp_bind p m fuel ot cx addr)"
  using assms
  unfolding tcp_bind_def bind_attempt_def bind_finish_def extension_function_def
  by (intro kept socket_functions resolving addrs_iter_drop)

lemma accept_new: "keeps I (listener_accept p ov self)"
  unfolding listener_accept_def by (intro kept socket_functions event_new UNIV_I)

lemma accepting: "keeps I (accept_poll p as_std self cx)"
proof -
  have "keeps I (accepted p as_std self client)" for client
  proof -
    have "I w'" if "run_state (socket_handle_new p client ce) w = (r, w')" "I w" for ce w r w'
      using that socket_handle unfolding keeps_def by (metis snd_conv)
    moreover have "I w'" if "run_state (socket_handle_new p client ce) v = (Ok h, v')"
      "run_state (io_handle_drop p [] [] h) w = (x, w')" "I w" for ce v v' h w x w'
      using that socket_handle_new_is_socket [OF that(1)] stream_drop [of p h "[]" "[]"]
      unfolding keeps_def env_keeps_def by (metis empty_iff list.set(1) snd_conv)
    ultimately show ?thesis
      by (fastforce simp: keeps_def accepted_def run_simps log run_current split: res.splits option.splits prod.splits)
  qed
  then show ?thesis unfolding accept_poll_def accept_schedule_def by (intro kept event_poll UNIV_I)
qed

lemma accept_dropped: "env_keeps I env \<Longrightarrow> keeps I (accept_drop p env self)"
  unfolding accept_drop_def by (intro kept event_drop)

lemma incoming_next: "env_keeps I env \<Longrightarrow> keeps I (incoming_poll_next p as_std ov env self cx)"
  unfolding incoming_poll_next_def by (intro kept accepting accept_new accept_dropped)

end

section \<open>The words are typed\<close>

text \<open>Every state word has one of the seven values the code distinguishes.\<close>

definition io_wf :: "io_world \<Rightarrow> bool" where
  "io_wf w \<longleftrightarrow> (\<forall>ov. valid_state (st (cores w ov)))"

interpretation wf: io_kept_all io_wf
  by unfold_locales (auto simp: io_wf_def word_move_def io_core_new_def iost.start)

text \<open>The cores outside a set are left alone, by operations on the cores in the set.\<close>

interpretation frame: io_kept "\<lambda>w. \<forall>ov. ov \<notin> A \<longrightarrow> cores w ov = cs ov" A for A cs
  by unfold_locales auto

text \<open>What the other threads do, at every point where \<open>connect\<close> waits.\<close>

definition others_keep :: "(io_world \<Rightarrow> bool) \<Rightarrow> others \<Rightarrow> bool" where
  "others_keep I ot \<longleftrightarrow> env_keeps I (o_drop ot) \<and> env_keeps I (o_lookup ot) \<and> (\<forall>n. env_keeps I (o_attempt ot n))"

text \<open>Connecting and listening by name keep every word among the seven values.\<close>

lemma words_stay_valid:
  assumes "others_keep io_wf ot"
  shows "keeps io_wf (tcp_connect p m fuel ot cx (str_to_socket_addrs p name))"
    and "keeps io_wf (tcp_bind p m fuel ot cx (str_to_socket_addrs p name))"
  using assms by (auto simp: others_keep_def wf.str_addrs intro: wf.connecting wf.listening)

section \<open>The words follow the protocol\<close>

text \<open>
  Between two calls, with no callback running, a word is in one of four phases. The tables say which
  phase follows, given the answer \<open>x\<close> of the call; \<open>None\<close> is an answer the call must not give there.
\<close>

definition at_rest :: "overlapped \<Rightarrow> io_world \<Rightarrow> bool" where
  "at_rest ov w \<longleftrightarrow> valid_at ov w \<and> phase_at ov w \<in> {Idle, PendingIo, Complete, CancelledNowait}"

fun after_poll :: "'a poll \<Rightarrow> phase \<Rightarrow> phase option" where
  "after_poll Pending Idle = Some PendingIo"
| "after_poll (Ready _) Idle = Some Idle"
| "after_poll (Ready _) Complete = Some Idle"
| "after_poll Pending PendingIo = Some PendingIo"
| "after_poll Pending CancelledNowait = Some CancelledNowait"
| "after_poll _ _ = None"

fun after_completion :: "'a option \<Rightarrow> phase \<Rightarrow> phase option" where
  "after_completion (Some _) Idle = Some Idle"
| "after_completion (Some _) Complete = Some Complete"
| "after_completion (Some _) PendingIo = Some Complete"
| "after_completion (Some _) CancelledNowait = Some Complete"
| "after_completion _ _ = None"

text \<open>A waiting cancel of a pending operation returns when the completion has come.\<close>

fun after_cancel :: "bool \<Rightarrow> 'a option \<Rightarrow> phase \<Rightarrow> phase option" where
  "after_cancel wait (Some _) PendingIo = Some (if wait then Complete else CancelledNowait)"
| "after_cancel wait (Some _) s = Some s"
| "after_cancel wait None s = None"

definition moves :: "overlapped \<Rightarrow> ('a \<Rightarrow> phase \<Rightarrow> phase option) \<Rightarrow> (io_world, 'a) state \<Rightarrow> io_world \<Rightarrow> bool" where
  "moves ov table m w \<longleftrightarrow> (case run_state m w of (x, w') \<Rightarrow>
     table x (phase_at ov w) = Some (phase_at ov w') \<and> at_rest ov w')"

lemma at_restE:
  assumes "at_rest ov w"
  obtains "phase_at ov w = Idle" | "phase_at ov w = PendingIo" | "phase_at ov w = Complete"
    | "phase_at ov w = CancelledNowait"
  using assms by (auto simp: at_rest_def)

lemma at_rest_word: "valid_state s \<Longrightarrow> phase_of s \<in> {Idle, PendingIo, Complete, CancelledNowait} \<Longrightarrow>
  st (cores w ov) = s \<Longrightarrow> at_rest ov w"
  by (simp add: at_rest_def)

lemma valid_words [simp]:
  "valid_state PENDING" "valid_state READY" "valid_state CANCELLED_NOWAIT" "valid_state CANCELLED_WAIT"
  by (simp_all add: valid_state_def)

lemma half_poll_moves:
  assumes "at_rest (half_overlapped half) w"
  shows "moves (half_overlapped half) after_poll (io_handle_poll p self half k buf) w"
proof -
  have valid: "valid_at (half_overlapped half) w" using assms by (simp add: at_rest_def)
  from assms show ?thesis
  proof (cases rule: at_restE)
    case 1
    then show ?thesis
      by (auto simp: moves_def io_handle_poll_start [OF 1 valid] Let_def at_rest_def split: prod.split poll.split)
  next
    case 2
    then show ?thesis using assms
      by (auto simp: moves_def io_handle_poll_busy [OF _ _ valid] at_rest_def)
  next
    case 3
    then show ?thesis by (simp add: moves_def io_handle_poll_take [OF 3 valid] at_rest_def)
  next
    case 4
    then show ?thesis using assms
      by (auto simp: moves_def io_handle_poll_busy [OF _ _ valid] at_rest_def)
  qed
qed

lemma half_completion_moves:
  assumes "at_rest ov w" and "is_half self ov"
  shows "moves ov after_completion (io_handle_callback p env self ov r n) w"
proof -
  have valid: "valid_at ov w" using assms by (simp add: at_rest_def)
  note complete = io_handle_callback_complete [OF assms(2) _ valid]
  from assms(1) show ?thesis
  proof (cases rule: at_restE)
    case 2
    then show ?thesis by (simp add: moves_def complete at_rest_def)
  next
    case 4
    then show ?thesis by (simp add: moves_def complete at_rest_def)
  qed (use assms(1) in \<open>auto simp: moves_def io_handle_callback_stale [OF assms(2) _ valid]\<close>)
qed

lemma half_cancel_moves:
  fixes p :: platform and r :: u32 and n :: usize
  assumes "at_rest (half_overlapped half) w" and "is_half self (half_overlapped half)"
    and "core_neutral (half_cancel half (io_hd self) (half_overlapped half) wt)"
  defines "cb \<equiv> \<lambda>w. snd (run_state (io_handle_callback p [] self (half_overlapped half) r n) w)"
  shows "moves (half_overlapped half) (after_cancel wt) (io_handle_cancel p (if wt then [cb] else env) self half wt) w"
proof -
  let ?ov = "half_overlapped half"
  have valid: "valid_at ?ov w" using assms by (simp add: at_rest_def)
  show ?thesis
  proof (cases "phase_at ?ov w = PendingIo")
    case False
    then have "after_cancel wt (Some (Ok ())) (phase_at ?ov w) = Some (phase_at ?ov w)"
      by (cases "phase_at ?ov w") simp_all
    with False show ?thesis using assms(1) by (simp add: moves_def io_handle_cancel_not_pending [OF valid])
  next
    case True
    obtain ret w1 where run: "run_state (half_cancel half (io_hd self) ?ov wt) (cancelling_world wt ?ov w) = (ret, w1)"
      by fastforce
    have w1: "st (cores w1 ?ov) = (if wt then CANCELLED_WAIT else CANCELLED_NOWAIT)"
      using core_neutralD [OF assms(3) run] by (simp add: cancelling_world_def)
    have "st (cores (cb w1) ?ov) = READY" if wt
      using io_handle_callback_cancelled [OF assms(2), of w1 p "[]" r n] w1 that by (simp add: cb_def)
    with w1 run show ?thesis
      by (simp add: moves_def io_handle_cancel_pending [OF valid True] True at_rest_def is_busy_def)
  qed
qed

text \<open>Events are not cancelled, and hold a result when they are complete.\<close>

definition event_at_rest :: "io_event \<Rightarrow> io_world \<Rightarrow> bool" where
  "event_at_rest ev w \<longleftrightarrow> at_rest (ev_ov ev) w \<and>
     (phase_at (ev_ov ev) w = Complete \<longrightarrow> (\<exists>r n. cell_at (ev_ov ev) w = io_result_set r n))"

lemma event_poll_moves:
  assumes "event_at_rest ev w"
  shows "moves (ev_ov ev) after_poll (io_event_poll p ev h k sch) w"
    and "event_at_rest ev (snd (run_state (io_event_poll p ev h k sch) w))"
proof -
  have rest: "at_rest (ev_ov ev) w" and valid: "valid_at (ev_ov ev) w"
    using assms by (simp_all add: event_at_rest_def at_rest_def)
  from rest have "moves (ev_ov ev) after_poll (io_event_poll p ev h k sch) w \<and>
    event_at_rest ev (snd (run_state (io_event_poll p ev h k sch) w))"
  proof (cases rule: at_restE)
    case 1
    then show ?thesis
      by (auto simp: moves_def event_at_rest_def io_event_poll_start [OF 1 valid] at_rest_def split: prod.split poll.split)
  next
    case 3
    then obtain r n where "cell_at (ev_ov ev) w = io_result_set r n" using assms by (auto simp: event_at_rest_def)
    from io_event_poll_take [OF 3 valid this, of p h k sch] 3 show ?thesis
      by (auto simp: moves_def event_at_rest_def at_rest_def split: prod.split)
  qed (use rest in \<open>auto simp: moves_def event_at_rest_def io_event_poll_busy [OF _ _ valid] at_rest_def\<close>)
  then show "moves (ev_ov ev) after_poll (io_event_poll p ev h k sch) w"
    "event_at_rest ev (snd (run_state (io_event_poll p ev h k sch) w))" by blast+
qed

lemma event_completion_moves:
  assumes "event_at_rest ev w" and "phase_at (ev_ov ev) w \<noteq> CancelledNowait"
  shows "moves (ev_ov ev) after_completion (io_event_callback p env ev r) w"
    and "event_at_rest ev (snd (run_state (io_event_callback p env ev r) w))"
proof -
  have rest: "at_rest (ev_ov ev) w" and valid: "valid_at (ev_ov ev) w"
    using assms by (simp_all add: event_at_rest_def at_rest_def)
  from rest have "moves (ev_ov ev) after_completion (io_event_callback p env ev r) w \<and>
    event_at_rest ev (snd (run_state (io_event_callback p env ev r) w))"
  proof (cases rule: at_restE)
    case 2
    then show ?thesis
      by (auto simp: moves_def event_at_rest_def io_event_callback_pending [OF 2 valid] at_rest_def)
  qed (use assms rest in \<open>auto simp: moves_def io_event_callback_stale [OF _ _ valid] at_rest_def\<close>)
  then show "moves (ev_ov ev) after_completion (io_event_callback p env ev r) w"
    "event_at_rest ev (snd (run_state (io_event_callback p env ev r) w))" by blast+
qed

lemma socket_halves:
  assumes "is_socket p self"
  shows "half_overlapped (io_read self) = OvRead" "half_overlapped (io_write self) = OvWrite"
    "half_cancel (io_read self) = socket_cancel p" "half_cancel (io_write self) = socket_cancel p"
    "is_half self OvRead" "is_half self OvWrite"
  using assms by (simp_all add: is_socket_def is_half_def)

lemma socket_cancel_frame: "core_neutral (socket_cancel p s ov wt)"
  by (simp add: core_neutral_def socket_cancel_def run_simps)

text \<open>
  Property C16: the state words follow the protocol of \<open>IoState\<close>. Whatever the system answers, a poll of
  either direction of a stream makes an idle word pending exactly when it answers \<open>Pending\<close>, and
  makes a complete one idle and answers \<open>Ready\<close>; a pending one stays pending and is answered
  \<open>Pending\<close>. A completion makes a pending or cancelled word complete and leaves others alone. A cancel
  marks pending words only; when it waits, it returns with the completion and the word is complete.
  Events do the same, but have no cancel. Between the calls a word is thus always in one of the
  four phases at rest, and never stuck in an intermediate one.
\<close>

theorem words_follow_protocol:
  fixes p :: platform and self :: tcp_stream and r :: u32 and n :: usize and ev :: io_event
  defines "cb \<equiv> \<lambda>ov w. snd (run_state (io_handle_callback p [] (ts_inner self) ov r n) w)"
  assumes "is_socket p (ts_inner self)" and "at_rest OvRead w" and "at_rest OvWrite w"
    and "event_at_rest ev w" and "phase_at (ev_ov ev) w \<noteq> CancelledNowait"
  shows "moves OvRead after_poll (poll_read (stream_async_read p env self) cx buf) w \<and>
    moves OvWrite after_poll (poll_write (stream_async_write p env self) cx buf) w \<and>
    moves OvRead after_completion (io_handle_callback p env (ts_inner self) OvRead r n) w \<and>
    moves OvWrite after_completion (io_handle_callback p env (ts_inner self) OvWrite r n) w \<and>
    moves OvRead (after_cancel False) (cancel_read (stream_async_read p env self) False) w \<and>
    moves OvWrite (after_cancel False) (cancel_write (stream_async_write p env self) False) w \<and>
    moves OvRead (after_cancel True) (cancel_read (stream_async_read p [cb OvRead] self) True) w \<and>
    moves OvWrite (after_cancel True) (cancel_write (stream_async_write p [cb OvWrite] self) True) w \<and>
    moves (ev_ov ev) after_poll (io_event_poll p ev h cx sch) w \<and>
    event_at_rest ev (snd (run_state (io_event_poll p ev h cx sch) w)) \<and>
    moves (ev_ov ev) after_completion (io_event_callback p env ev r) w \<and>
    event_at_rest ev (snd (run_state (io_event_callback p env ev r) w))"
proof -
  note halves = socket_halves [OF assms(2)]
  note defs = stream_async_read_def stream_async_write_def io_handle_poll_read_def io_handle_poll_write_def
    io_handle_cancel_read_def io_handle_cancel_write_def
  note reads = half_poll_moves [of "io_read (ts_inner self)", unfolded halves]
    half_cancel_moves [of "io_read (ts_inner self)" w "ts_inner self", unfolded halves, OF assms(3) halves(5) socket_cancel_frame]
  note writes = half_poll_moves [of "io_write (ts_inner self)", unfolded halves]
    half_cancel_moves [of "io_write (ts_inner self)" w "ts_inner self", unfolded halves, OF assms(4) halves(6) socket_cancel_frame]
  have "moves OvRead (after_cancel wt) (io_handle_cancel p (if wt then [cb OvRead] else env) (ts_inner self) (io_read (ts_inner self)) wt) w"
    "moves OvWrite (after_cancel wt) (io_handle_cancel p (if wt then [cb OvWrite] else env) (ts_inner self) (io_write (ts_inner self)) wt) w" for wt
    unfolding cb_def by (rule reads(2), rule writes(2))
  from this [of True] this [of False] show ?thesis
    using reads(1) [OF assms(3)] writes(1) [OF assms(4)] half_completion_moves [OF assms(3) halves(5)]
      half_completion_moves [OF assms(4) halves(6)] event_poll_moves [OF assms(5)] event_completion_moves [OF assms(5,6)]
    by (simp add: defs)
qed

theorem words_follow_protocol_witness:
  "moves OvRead after_poll (poll_read (stream_async_read (sample_platform (\<lambda>_. 997)) [] sample_stream) 7 \<lparr>buf_len = 1, buf_ptr = 9\<rparr>) idle_world \<and>
   moves OvWrite after_completion (io_handle_callback (sample_platform (\<lambda>_. 997)) [] (ts_inner sample_stream) OvWrite 0 4) idle_world"
proof -
  have "is_socket (sample_platform (\<lambda>_. 997)) (ts_inner sample_stream)"
    by (simp add: is_socket_def sample_stream_def)
  moreover have "at_rest OvRead idle_world" "at_rest OvWrite idle_world"
    "event_at_rest \<lparr>ev_wait = 1, ev_hEvent = 2, ev_ov = OvEvent\<rparr> idle_world"
    "phase_at (ev_ov \<lparr>ev_wait = 1, ev_hEvent = 2, ev_ov = OvEvent\<rparr>) idle_world \<noteq> CancelledNowait"
    by (simp_all add: at_rest_def event_at_rest_def)
  ultimately show ?thesis using words_follow_protocol by blast
qed

text \<open>
  Property C18: the two directions of a stream do not disturb each other. Polling, cancelling and
  completing a read changes nothing of the state of the write half, nor of any event, and
  likewise for a write; what other threads do during the waiting cancel is up to them.
\<close>

theorem halves_are_independent:
  assumes "is_socket p (ts_inner self)" and "ov \<noteq> OvRead" and "ov' \<noteq> OvWrite"
  shows "cores (snd (run_state (poll_read (stream_async_read p env self) cx buf) w)) ov = cores w ov \<and>
    cores (snd (run_state (cancel_read (stream_async_read p [] self) wt) w)) ov = cores w ov \<and>
    cores (snd (run_state (io_handle_callback p [] (ts_inner self) OvRead r n) w)) ov = cores w ov \<and>
    cores (snd (run_state (poll_write (stream_async_write p env self) cx buf) w)) ov' = cores w ov' \<and>
    cores (snd (run_state (cancel_write (stream_async_write p [] self) wt) w)) ov' = cores w ov' \<and>
    cores (snd (run_state (io_handle_callback p [] (ts_inner self) OvWrite r n) w)) ov' = cores w ov'"
proof -
  have none: "env_keeps I []" for I by (simp add: env_keeps_def)
  show ?thesis
    using assms(2,3) frame.stream_poll [OF assms(1), of "{OvRead}"] frame.stream_poll [OF assms(1), of "{OvWrite}"]
      frame.stream_cancel [OF assms(1) none, of "{OvRead}"] frame.stream_cancel [OF assms(1) none, of "{OvWrite}"]
      frame.handle_callback [OF _ none, of _ "{OvRead}"] frame.handle_callback [OF _ none, of _ "{OvWrite}"]
    unfolding keeps_def by simp
qed

theorem halves_are_independent_witness:
  "cores (snd (run_state (io_handle_callback (sample_platform (\<lambda>_. 997)) [] (ts_inner sample_stream) OvRead 0 3)
     net_world)) OvWrite = cores net_world OvWrite"
proof -
  have "is_socket (sample_platform (\<lambda>_. 997)) (ts_inner sample_stream)"
    by (simp add: is_socket_def sample_stream_def)
  from halves_are_independent [OF this, of OvWrite OvRead "[]"] show ?thesis by blast
qed

end
