(* ===== verification/Tcp_Exact.thy ===== *)
theory Tcp_Exact
  imports Tcp_Props
begin

text \<open>
  \<open>read_exact\<close> on a TCP stream, from the future down to the state word: \<open>ReadExact\<close> and \<open>Read\<close>
  (\<open>src/io/read/ext.rs\<close>) over \<open>TcpStream\<close> (\<open>src/net/tcp/read.rs\<close>) over \<open>IoHandle\<close>
  (\<open>src/io/shared/handle.rs\<close>), with a system that receives: it takes bytes from the input of the
  connection and writes them to the buffer of the receive, either inside \<open>WSARecv\<close>, which then
  answers 0, or later, when it runs the completion callback.
\<close>

section \<open>A connection\<close>

record 'b net =
  nw :: io_world
  nmem :: "ptr \<Rightarrow> 'b"
  ninp :: "'b list"

text \<open>The system moves \<open>m\<close> bytes of the input to the buffer \<open>b\<close>.\<close>

definition received :: "wsabuf \<Rightarrow> nat \<Rightarrow> 'b net \<Rightarrow> 'b net" where
  "received b m n = n\<lparr>nmem := (\<lambda>a. if buf_ptr b \<le> a \<and> a < buf_ptr b + int m then ninp n ! nat (a - buf_ptr b) else nmem n a),
     ninp := drop m (ninp n)\<rparr>"

text \<open>The count \<open>WSAGetOverlappedResult\<close> reports for a receive that has succeeded at once.\<close>

definition reported :: "platform \<Rightarrow> call list \<Rightarrow> ptr \<Rightarrow> overlapped \<Rightarrow> wsabuf \<Rightarrow> nat" where
  "reported p l h ov b = unat (word_of_int (outp p (l @ [WSARecv h ov b]) (WSAGetOverlappedResult h ov)) :: u32)"

text \<open>The receive among some calls that succeeded at once, with its buffer and its bytes.\<close>

fun at_once :: "platform \<Rightarrow> call list \<Rightarrow> call list \<Rightarrow> (wsabuf \<times> nat) option" where
  "at_once p l [] = None"
| "at_once p l (WSARecv h ov b # cs) =
     (if win p l (WSARecv h ov b) = 0 then Some (b, reported p l h ov b) else None)"
| "at_once p l (c # cs) = at_once p (l @ [c]) cs"

definition on_net :: "platform \<Rightarrow> (io_world, 'a) state \<Rightarrow> ('b net, 'a) state" where
  "on_net p m = State (\<lambda>n. case run_state m (nw n) of (r, w) \<Rightarrow>
     (r, case at_once p (wlog (nw n)) (drop (length (wlog (nw n))) (wlog w)) of
           None \<Rightarrow> n\<lparr>nw := w\<rparr>
         | Some (b, m) \<Rightarrow> received b m (n\<lparr>nw := w\<rparr>)))"

definition net_read :: "platform \<Rightarrow> tcp_stream \<Rightarrow> 'b net async_read" where
  "net_read p self = \<lparr>
     poll_read = (\<lambda>cx buf. on_net p (poll_read (stream_async_read p [] self) cx buf)),
     cancel_read = (\<lambda>wait. on_net p (cancel_read (stream_async_read p [] self) wait))\<rparr>"

text \<open>The buffer of the last receive that was posted.\<close>

fun posted :: "call list \<Rightarrow> wsabuf option" where
  "posted [] = None"
| "posted (WSARecv h ov b # l) = (case posted l of None \<Rightarrow> Some b | Some b' \<Rightarrow> Some b')"
| "posted (_ # l) = posted l"

lemma posted_append: "posted (l @ l') = (case posted l' of None \<Rightarrow> posted l | Some b \<Rightarrow> Some b)"
  by (induction l rule: posted.induct) (auto split: option.split)

text \<open>
  The system completes a pending receive: with at most \<open>j\<close> bytes, as many as fit in the buffer and
  have arrived, or with the error \<open>r\<close>. Otherwise nothing happens.
\<close>

definition completes :: "platform \<Rightarrow> tcp_stream \<Rightarrow> u32 \<Rightarrow> nat \<Rightarrow> 'b net \<Rightarrow> 'b net" where
  "completes p self r m n =
     n\<lparr>nw := snd (run_state (io_handle_callback p [] (ts_inner self) OvRead r (of_nat m)) (nw n))\<rparr>"

definition deliver :: "platform \<Rightarrow> tcp_stream \<Rightarrow> nat \<Rightarrow> 'b net \<Rightarrow> 'b net" where
  "deliver p self j n =
     (case posted (wlog (nw n)) of
        None \<Rightarrow> n
      | Some b \<Rightarrow>
          if phase_at OvRead (nw n) \<noteq> PendingIo then n
          else
            (let m = min j (min (unat (buf_len b)) (length (ninp n))) in
             received b m (completes p self 0 m n)))"

definition fails :: "platform \<Rightarrow> tcp_stream \<Rightarrow> u32 \<Rightarrow> 'b net \<Rightarrow> 'b net" where
  "fails p self r n = (if r = 0 \<or> phase_at OvRead (nw n) \<noteq> PendingIo then n else completes p self r 0 n)"

text \<open>
  The completion of a receive that has succeeded at once is also queued, and runs later, while no
  other receive is pending. (When one is, the half takes the completion for its own; the property
  \<open>race_synchronous_mixup\<close> of the theory \<open>Io_Race\<close> is about that.)
\<close>

definition late :: "platform \<Rightarrow> tcp_stream \<Rightarrow> u32 \<Rightarrow> nat \<Rightarrow> 'b net \<Rightarrow> 'b net" where
  "late p self r m n = (if phase_at OvRead (nw n) = PendingIo then n else completes p self r m n)"

text \<open>Other code: it leaves the read half, the memory and the input alone and posts no receive.\<close>

definition quiet :: "('b net \<Rightarrow> 'b net) \<Rightarrow> bool" where
  "quiet e \<longleftrightarrow> (\<forall>n. cores (nw (e n)) OvRead = cores (nw n) OvRead \<and>
     posted (wlog (nw (e n))) = posted (wlog (nw n)) \<and> nmem (e n) = nmem n \<and> ninp (e n) = ninp n)"

definition net_step :: "platform \<Rightarrow> tcp_stream \<Rightarrow> ('b net \<Rightarrow> 'b net) \<Rightarrow> bool" where
  "net_step p self e \<longleftrightarrow> quiet e \<or> (\<exists>j. e = deliver p self j) \<or> (\<exists>r. e = fails p self r) \<or> (\<exists>r m. e = late p self r m)"

text \<open>
  What the system documents of a receive that succeeds at once: it has received no more bytes than
  fit in the buffer. And when receives do not fail, they succeed, with at least one byte unless
  the buffer is empty, or are left pending (997, \<open>WSA_IO_PENDING\<close>).
\<close>

definition recv_bounded :: "platform \<Rightarrow> bool" where
  "recv_bounded p \<longleftrightarrow> (\<forall>l h ov b. win p l (WSARecv h ov b) = 0 \<longrightarrow> reported p l h ov b \<le> unat (buf_len b))"

definition recv_works :: "platform \<Rightarrow> bool" where
  "recv_works p \<longleftrightarrow> (\<forall>l h ov b.
     if win p l (WSARecv h ov b) = 0
     then win p (l @ [WSARecv h ov b]) (WSAGetOverlappedResult h ov) = c_TRUE p \<and>
       (buf_len b \<noteq> 0 \<longrightarrow> 0 < reported p l h ov b)
     else win p (l @ [WSARecv h ov b]) WSAGetLastError = 997)"

section \<open>Single polls\<close>

lemma received_sel [simp]: "nw (received b m n) = nw n"
  by (simp add: received_def)

lemma received_moves: "m \<le> length (ninp n) \<Longrightarrow> read_moved nmem ninp b m n (received b m n')"
  if "nmem n' = nmem n" "ninp n' = ninp n"
  using that by (simp add: received_def read_moved_def)

lemma net_poll:
  "run_state (poll_read (net_read p self) k b) n =
    run_state (on_net p (io_handle_poll p (ts_inner self) (io_read (ts_inner self)) k b)) n"
  by (simp add: net_read_def stream_async_read_def io_handle_poll_read_def)

text \<open>A poll of an idle half leaves a receive pending, has received at once, or fails.\<close>

lemma net_poll_idle:
  assumes "is_socket p (ts_inner self)" and "valid_at OvRead (nw n)" and "phase_at OvRead (nw n) = Idle"
    and "run_state (poll_read (net_read p self) k b) n = (r, n')"
  obtains
    (pends) "r = Pending" "valid_at OvRead (nw n')" "phase_at OvRead (nw n') = PendingIo"
      "posted (wlog (nw n')) = Some b" "nmem n' = nmem n" "ninp n' = ninp n"
  | (at_once) l h ov where "win p l (WSARecv h ov b) = 0" "r = Ready (Ok (of_nat (reported p l h ov b)))"
      "valid_at OvRead (nw n')" "phase_at OvRead (nw n') = Idle" "\<exists>n1. n' = received b (reported p l h ov b) n1 \<and> nmem n1 = nmem n \<and> ninp n1 = ninp n"
  | (failed) e where "r = Ready (Err e)" "\<not> recv_works p"
proof -
  let ?h = "io_hd (ts_inner self)" and ?start = "StartThreadpoolIo (ptp_io (ts_inner self))"
  let ?l = "wlog (nw n) @ [?start]"
  have half: "half_overlapped (io_read (ts_inner self)) = OvRead"
    "half_schedule (io_read (ts_inner self)) = recv_schedule p"
    using assms(1) by (simp_all add: is_socket_def)
  have log: "?l @ [c] = wlog (nw n) @ [?start, c]" for c by simp
  note run = assms(4) [unfolded net_poll on_net_def]
  note start = io_handle_poll_start [where half = "io_read (ts_inner self)" and w = "nw n", unfolded half, OF assms(3,2)]
  note defs = start recv_schedule_def run_simps Let_def reported_def log
  consider "win p ?l (WSARecv ?h OvRead b) = 0" "win p (?l @ [WSARecv ?h OvRead b]) (WSAGetOverlappedResult ?h OvRead) = c_TRUE p"
    | "win p ?l (WSARecv ?h OvRead b) = 0" "win p (?l @ [WSARecv ?h OvRead b]) (WSAGetOverlappedResult ?h OvRead) \<noteq> c_TRUE p"
    | "win p ?l (WSARecv ?h OvRead b) \<noteq> 0" "win p (?l @ [WSARecv ?h OvRead b]) WSAGetLastError = 997"
    | "win p ?l (WSARecv ?h OvRead b) \<noteq> 0" "win p (?l @ [WSARecv ?h OvRead b]) WSAGetLastError \<noteq> 997" by blast
  then show ?thesis
  proof cases
    case 1
    show ?thesis
      by (rule at_once [of ?l ?h OvRead]) (use 1 run in \<open>auto simp: defs half\<close>)
  next
    case 2
    then have "\<not> recv_works p" unfolding recv_works_def by (metis (full_types))
    then show ?thesis by (rule failed [rotated]) (use 2 run in \<open>auto simp: defs half\<close>)
  next
    case 3
    show ?thesis by (rule pends) (use 3 run in \<open>auto simp: defs half posted_append valid_state_def\<close>)
  next
    case 4
    then have "\<not> recv_works p" unfolding recv_works_def by (metis (full_types))
    then show ?thesis by (rule failed [rotated]) (use 4 run in \<open>auto simp: defs half\<close>)
  qed
qed

lemma net_poll_pending:
  assumes "is_socket p (ts_inner self)" and "valid_at OvRead (nw n)" and "phase_at OvRead (nw n) = PendingIo"
  shows "\<exists>n'. run_state (poll_read (net_read p self) k b) n = (Pending, n') \<and>
    valid_at OvRead (nw n') \<and> phase_at OvRead (nw n') = PendingIo \<and> posted (wlog (nw n')) = posted (wlog (nw n)) \<and>
    nmem n' = nmem n \<and> ninp n' = ninp n"
  using assms unfolding net_poll
  by (simp add: on_net_def io_handle_poll_busy is_socket_def)

lemma net_poll_complete:
  assumes "is_socket p (ts_inner self)" and "valid_at OvRead (nw n)" and "phase_at OvRead (nw n) = Complete"
  shows "\<exists>n'. run_state (poll_read (net_read p self) k b) n = (Ready (io_result_get (cell_at OvRead (nw n))), n') \<and>
    valid_at OvRead (nw n') \<and> phase_at OvRead (nw n') = Idle \<and> nmem n' = nmem n \<and> ninp n' = ninp n"
  using assms unfolding net_poll
  by (simp add: on_net_def io_handle_poll_take is_socket_def valid_state_def)

lemma completes_pending:
  assumes "is_socket p (ts_inner self)" and "valid_at OvRead (nw n)" and "phase_at OvRead (nw n) = PendingIo"
  shows "valid_at OvRead (nw (completes p self r m n))" "phase_at OvRead (nw (completes p self r m n)) = Complete"
    "cell_at OvRead (nw (completes p self r m n)) = io_result_set r (of_nat m)"
    "nmem (completes p self r m n) = nmem n" "ninp (completes p self r m n) = ninp n"
proof -
  have "is_half (ts_inner self) OvRead" using assms(1) by (simp add: is_half_def is_socket_def)
  then have "run_state (io_handle_callback p [] (ts_inner self) OvRead r (of_nat m)) (nw n) =
      (Some (Ok ()), snd (run_state (wake_task p OvRead)
         (upd_core OvRead (\<lambda>c. c\<lparr>cell := io_result_set r (of_nat m), st := READY\<rparr>) (nw n))))"
    using assms(2,3) by (intro io_handle_callback_complete) auto
  then show "valid_at OvRead (nw (completes p self r m n))" "phase_at OvRead (nw (completes p self r m n)) = Complete"
    "cell_at OvRead (nw (completes p self r m n)) = io_result_set r (of_nat m)"
    "nmem (completes p self r m n) = nmem n" "ninp (completes p self r m n) = ninp n"
    by (simp_all add: completes_def valid_state_def)
qed

lemma completes_stale:
  assumes "is_socket p (ts_inner self)" and "valid_at OvRead (nw n)" and "phase_at OvRead (nw n) \<in> {Idle, Complete}"
  shows "completes p self r m n = n"
proof -
  have "is_half (ts_inner self) OvRead" using assms(1) by (simp add: is_half_def is_socket_def)
  then have "run_state (io_handle_callback p [] (ts_inner self) OvRead r (of_nat m)) (nw n) = (Some (Ok ()), nw n)"
    using assms(2,3) by (intro io_handle_callback_stale) auto
  then show ?thesis by (simp add: completes_def)
qed

lemma deliver_pending:
  fixes j :: nat
  assumes "is_socket p (ts_inner self)" and "valid_at OvRead (nw n)" and "phase_at OvRead (nw n) = PendingIo"
    and "posted (wlog (nw n)) = Some b"
  defines "m \<equiv> min j (min (unat (buf_len b)) (length (ninp n)))"
  shows "valid_at OvRead (nw (deliver p self j n)) \<and> phase_at OvRead (nw (deliver p self j n)) = Complete \<and>
    cell_at OvRead (nw (deliver p self j n)) = io_result_set 0 (of_nat m) \<and>
    read_moved nmem ninp b m n (deliver p self j n)"
proof -
  note c = completes_pending [OF assms(1-3), of 0 m]
  have "deliver p self j n = received b m (completes p self 0 m n)"
    using assms(3,4) by (simp add: deliver_def Let_def m_def)
  moreover have "m \<le> length (ninp n)" by (simp add: m_def)
  ultimately show ?thesis using c received_moves [OF c(4,5)] by simp
qed

lemma deliver_other: "phase_at OvRead (nw n) \<noteq> PendingIo \<Longrightarrow> deliver p self j n = n"
  by (simp add: deliver_def split: option.split)

section \<open>The future and the connection\<close>

text \<open>
  How far the transfer is, by the phase of the half: the bytes counted by the future have been
  moved; while a receive is pending it is for the rest of the buffer; and when it has completed,
  its bytes have been moved too, though the future has not yet counted them, or it has failed.
\<close>

definition transferring :: "platform \<Rightarrow> tcp_stream \<Rightarrow> 'b net \<Rightarrow> 'b net read_exact \<Rightarrow> 'b net \<Rightarrow> bool" where
  "transferring p self n0 f n \<longleftrightarrow>
     read_io (re_read f) = net_read p self \<and> valid_at OvRead (nw n) \<and>
     unat (buf_len (re_buf f)) \<le> length (ninp n0) \<and>
     (case phase_at OvRead (nw n) of
        Idle \<Rightarrow> read_moved nmem ninp (re_buf f) (unat (re_n f)) n0 n
      | PendingIo \<Rightarrow> read_moved nmem ninp (re_buf f) (unat (re_n f)) n0 n \<and>
          posted (wlog (nw n)) = Some (read_buf (re_read f))
      | Complete \<Rightarrow> (\<exists>m. cell_at OvRead (nw n) = io_result_set 0 m \<and>
            unat m \<le> unat (buf_len (read_buf (re_read f))) \<and>
            read_moved nmem ninp (re_buf f) (unat (re_n f) + unat m) n0 n) \<or>
          (\<exists>r m. cell_at OvRead (nw n) = io_result_set r m \<and> r \<noteq> 0 \<and>
            read_moved nmem ninp (re_buf f) (unat (re_n f)) n0 n)
      | _ \<Rightarrow> False)"

lemma read_moved_view:
  "nmem n' = nmem n \<Longrightarrow> ninp n' = ninp n \<Longrightarrow> read_moved nmem ninp b m n0 n' = read_moved nmem ninp b m n0 n"
  by (simp add: read_moved_def)

lemma read_poll_net:
  "read_io (re_read f) = net_read p self \<Longrightarrow>
   run_state (read_poll (re_read f) k) n = run_state (poll_read (net_read p self) k (read_buf (re_read f))) n"
  by (simp add: read_poll_def ref_async_read_def)

text \<open>The bytes of a receive for the rest of the buffer, behind the bytes the future has counted.\<close>

lemma rest_received:
  assumes "re.within f" and "read_moved nmem ninp (re_buf f) (unat (re_n f)) n0 n"
    and "read_moved nmem ninp (read_buf (re_read f)) m n t"
  shows "read_moved nmem ninp (re_buf f) (unat (re_n f) + m) n0 t"
proof -
  have "read_buf (re_read f) = advance (re_buf f) (re_n f)" using assms(1) by (simp add: re.within_def)
  then show ?thesis using read_moved_append [OF assms(2), of m] assms(3) by simp
qed

lemma rest_available:
  assumes "re.within f" and "read_moved nmem ninp (re_buf f) (unat (re_n f)) n0 n"
    and "unat (buf_len (re_buf f)) \<le> length (ninp n0)"
  shows "unat (buf_len (read_buf (re_read f))) \<le> length (ninp n)"
proof -
  have "ninp n = drop (unat (re_n f)) (ninp n0)" using assms(2) by (simp add: read_moved_def)
  then show ?thesis using assms(3) re.within_rest [OF assms(1)] by (simp add: re.left_over_def)
qed

lemma transferring_idle:
  assumes "is_socket p (ts_inner self)" and "recv_bounded p" and "re.within f"
    and "transferring p self n0 f n" and "phase_at OvRead (nw n) = Idle"
    and "run_state (read_poll (re_read f) k) n = (r, t)"
  obtains
    (pends) "r = Pending" "transferring p self n0 f t" "phase_at OvRead (nw t) = PendingIo"
  | (at_once) m where "r = Ready (Ok m)" "unat m \<le> unat (buf_len (read_buf (re_read f)))"
      "transferring p self n0 (re_moved_on (advance (read_buf (re_read f)) m) (re_n f + m) f) t"
      "phase_at OvRead (nw t) = Idle" "recv_works p \<longrightarrow> 0 < unat m \<or> re.left_over f = 0"
  | (failed) e where "r = Ready (Err e)" "\<not> recv_works p"
proof -
  let ?b = "read_buf (re_read f)"
  have J: "read_io (re_read f) = net_read p self" "valid_at OvRead (nw n)"
    "unat (buf_len (re_buf f)) \<le> length (ninp n0)" "read_moved nmem ninp (re_buf f) (unat (re_n f)) n0 n"
    using assms(4,5) by (simp_all add: transferring_def)
  have "run_state (poll_read (net_read p self) k ?b) n = (r, t)"
    using assms(6) by (simp add: read_poll_net [OF J(1)])
  with assms(1) J(2) assms(5) show ?thesis
  proof (cases rule: net_poll_idle)
    case t: pends
    then have "transferring p self n0 f t" using J by (simp add: transferring_def read_moved_view [OF t(5,6)])
    then show ?thesis using t pends by blast
  next
    case t: (at_once l h ov)
    let ?m = "reported p l h ov ?b"
    let ?g = "re_moved_on (advance ?b (of_nat ?m)) (re_n f + of_nat ?m) f"
    have le: "?m \<le> unat (buf_len ?b)" using assms(2) t(1) unfolding recv_bounded_def by blast
    then have small: "unat (of_nat ?m :: usize) = ?m"
      using unat_u32_less [of "buf_len ?b"] by (simp add: unat_of_nat)
    obtain n1 where n1: "t = received ?b ?m n1" "nmem n1 = nmem n" "ninp n1 = ninp n" using t(5) by blast
    have "read_moved nmem ninp ?b ?m n t"
      unfolding n1(1) by (rule received_moves [OF n1(2,3)]) (use le rest_available [OF assms(3) J(4,3)] in simp)
    from rest_received [OF assms(3) J(4) this] have "transferring p self n0 ?g t"
      using J t(3,4) re.within_moved_on(2) [OF assms(3), of "of_nat ?m"] le small
      by (simp add: transferring_def re_moved_on_def)
    moreover have "0 < ?m \<or> re.left_over f = 0" if "recv_works p"
    proof -
      have "buf_len ?b \<noteq> 0 \<longrightarrow> 0 < ?m" using that t(1) unfolding recv_works_def by (metis (full_types))
      then show ?thesis using re.within_rest [OF assms(3)] by (auto simp: unat_eq_0)
    qed
    ultimately show ?thesis using at_once [of "of_nat ?m"] t(2,4) le small by simp
  next
    case (failed e)
    then show ?thesis using that(3) by blast
  qed
qed

lemma transferring_complete:
  assumes "is_socket p (ts_inner self)" and "re.within f"
    and "transferring p self n0 f n" and "phase_at OvRead (nw n) = Complete"
    and "run_state (read_poll (re_read f) k) n = (r, t)"
  obtains
    (taken) m where "r = Ready (Ok m)" "cell_at OvRead (nw n) = io_result_set 0 m" "unat m \<le> unat (buf_len (read_buf (re_read f)))"
      "transferring p self n0 (re_moved_on (advance (read_buf (re_read f)) m) (re_n f + m) f) t" "phase_at OvRead (nw t) = Idle"
  | (failed) e c m where "r = Ready (Err e)" "cell_at OvRead (nw n) = io_result_set c m" "c \<noteq> 0"
proof -
  let ?b = "read_buf (re_read f)"
  have J: "read_io (re_read f) = net_read p self" "valid_at OvRead (nw n)"
    "unat (buf_len (re_buf f)) \<le> length (ninp n0)"
    using assms(3) by (simp_all add: transferring_def)
  have run: "run_state (poll_read (net_read p self) k ?b) n = (r, t)"
    using assms(5) by (simp add: read_poll_net [OF J(1)])
  have t: "r = Ready (io_result_get (cell_at OvRead (nw n)))" "valid_at OvRead (nw t)" "phase_at OvRead (nw t) = Idle"
    "nmem t = nmem n" "ninp t = ninp n"
    using net_poll_complete [OF assms(1) J(2) assms(4), of k ?b] run by auto
  consider m where "cell_at OvRead (nw n) = io_result_set 0 m" "unat m \<le> unat (buf_len ?b)"
      "read_moved nmem ninp (re_buf f) (unat (re_n f) + unat m) n0 n"
    | c m where "cell_at OvRead (nw n) = io_result_set c m" "c \<noteq> 0"
    using assms(3,4) by (auto simp: transferring_def)
  then show ?thesis
  proof cases
    case (1 m)
    then have "transferring p self n0 (re_moved_on (advance ?b m) (re_n f + m) f) t"
      using J t re.within_moved_on(2) [OF assms(2) 1(2)]
      by (simp add: transferring_def read_moved_view [OF t(4,5)] re_moved_on_def)
    then show ?thesis using taken 1 t(1,3) by (simp add: io_result_get_set)
  next
    case (2 c m)
    then show ?thesis using failed t(1) by (simp add: io_result_get_set)
  qed
qed

lemma transferring_coupled:
  assumes "is_socket p (ts_inner self)" and "recv_bounded p"
  shows "re.coupled (transferring p self n0)"
  unfolding re.coupled_def
proof (intro allI impI)
  fix f k n r t
  assume f: "re.within f" and J: "transferring p self n0 f n"
    and once: "run_state (read_poll (re_read f) k) n = (r, t)"
  let ?g = "\<lambda>m. re_moved_on (advance (read_buf (re_read f)) m) (re_n f + m) f"
  show "case r of
      Ready (Ok m) \<Rightarrow> unat m \<le> unat (buf_len (read_buf (re_read f))) \<and> transferring p self n0 (?g m) t
    | Pending \<Rightarrow> transferring p self n0 f t
    | _ \<Rightarrow> True"
  proof (cases "phase_at OvRead (nw n)")
    case Idle
    from assms f J Idle once show ?thesis by (cases rule: transferring_idle) auto
  next
    case PendingIo
    have io: "read_io (re_read f) = net_read p self" and valid: "valid_at OvRead (nw n)"
      using J by (simp_all add: transferring_def)
    from net_poll_pending [OF assms(1) valid PendingIo, of k "read_buf (re_read f)"] once
    have t: "r = Pending" "valid_at OvRead (nw t)" "phase_at OvRead (nw t) = PendingIo"
      "posted (wlog (nw t)) = posted (wlog (nw n))" "nmem t = nmem n" "ninp t = ninp n"
      by (auto simp: read_poll_net [OF io])
    then show ?thesis using J PendingIo by (simp add: transferring_def read_moved_view [OF t(5,6)])
  next
    case Complete
    from assms(1) f J Complete once show ?thesis by (cases rule: transferring_complete) auto
  qed (use J in \<open>auto simp: transferring_def\<close>)
qed

lemma transferring_deliver:
  assumes "is_socket p (ts_inner self)" and "re.within f" and "transferring p self n0 f n"
  shows "transferring p self n0 f (deliver p self j n)"
proof (cases "phase_at OvRead (nw n) = PendingIo")
  case True
  let ?b = "read_buf (re_read f)" and ?n' = "deliver p self j n"
  define m where "m = min j (min (unat (buf_len ?b)) (length (ninp n)))"
  have J: "valid_at OvRead (nw n)" "posted (wlog (nw n)) = Some ?b" "read_io (re_read f) = net_read p self"
    "read_moved nmem ninp (re_buf f) (unat (re_n f)) n0 n" "unat (buf_len (re_buf f)) \<le> length (ninp n0)"
    using assms(3) True by (simp_all add: transferring_def)
  have small: "unat (of_nat m :: usize) = m"
    using unat_u32_less [of "buf_len ?b"] by (simp add: m_def unat_of_nat)
  note d = deliver_pending [OF assms(1) J(1) True J(2), of j, folded m_def]
  have "read_moved nmem ninp (re_buf f) (unat (re_n f) + m) n0 ?n'"
    using rest_received [OF assms(2) J(4)] d by blast
  moreover have "m \<le> unat (buf_len ?b)" by (simp add: m_def)
  ultimately show ?thesis
    using d J(3,5) small unfolding transferring_def by (auto intro!: exI [of _ "of_nat m"])
qed (use assms(3) in \<open>simp add: deliver_other\<close>)

lemma transferring_fails:
  assumes "is_socket p (ts_inner self)" and "transferring p self n0 f n"
  shows "transferring p self n0 f (fails p self r n)"
proof (cases "r = 0 \<or> phase_at OvRead (nw n) \<noteq> PendingIo")
  case False
  then have J: "valid_at OvRead (nw n)" "phase_at OvRead (nw n) = PendingIo" and r: "r \<noteq> 0"
    using assms(2) by (simp_all add: transferring_def)
  note c = completes_pending [OF assms(1) J, of r 0]
  have "fails p self r n = completes p self r 0 n" using False by (simp add: fails_def)
  then show ?thesis
    using assms(2) c(1-3) J(2) r by (auto simp: transferring_def read_moved_view [OF c(4,5)])
qed (use assms(2) in \<open>auto simp: fails_def\<close>)

lemma transferring_late:
  assumes "is_socket p (ts_inner self)" and "transferring p self n0 f n"
  shows "transferring p self n0 f (late p self r m n)"
proof (cases "phase_at OvRead (nw n) = PendingIo")
  case False
  then have "valid_at OvRead (nw n)" "phase_at OvRead (nw n) \<in> {Idle, Complete}"
    using assms(2) by (auto simp: transferring_def split: phase.splits)
  from completes_stale [OF assms(1) this] show ?thesis using assms(2) by (simp add: late_def)
qed (use assms(2) in \<open>simp add: late_def\<close>)

lemma transferring_quiet:
  assumes "quiet e" and "transferring p self n0 f n"
  shows "transferring p self n0 f (e n)"
proof -
  have e: "cores (nw (e n)) OvRead = cores (nw n) OvRead" "posted (wlog (nw (e n))) = posted (wlog (nw n))"
    "nmem (e n) = nmem n" "ninp (e n) = ninp n"
    using assms(1) by (simp_all add: quiet_def)
  show ?thesis using assms(2) unfolding transferring_def e(1,2) read_moved_view [OF e(3,4)] .
qed

lemma transferring_step:
  "net_step p self e \<Longrightarrow> is_socket p (ts_inner self) \<Longrightarrow> re.within f \<Longrightarrow> transferring p self n0 f n \<Longrightarrow>
   transferring p self n0 f (e n)"
  unfolding net_step_def
  by (auto intro: transferring_quiet transferring_deliver transferring_fails transferring_late)

lemma transferring_new:
  "valid_at OvRead (nw n) \<Longrightarrow> phase_at OvRead (nw n) = Idle \<Longrightarrow> unat (buf_len buf) \<le> length (ninp n) \<Longrightarrow>
   transferring p self n (read_exact_new (net_read p self) buf) n"
  by (simp add: transferring_def read_exact_new_def read_new_def)

lemma transferring_done:
  assumes "re.all_done f" and "transferring p self n0 f n"
  shows "read_moved nmem ninp (re_buf f) (unat (buf_len (re_buf f))) n0 n"
proof -
  have "unat (buf_len (read_buf (re_read f))) = 0" "unat (re_n f) = unat (buf_len (re_buf f))"
    using assms(1) re.within_rest [of f] by (simp_all add: re.all_done_def re.left_over_def)
  then show ?thesis using assms(2) by (auto simp: transferring_def split: phase.splits)
qed

lemma tcp_transfer:
  assumes "is_socket p (ts_inner self)" and "recv_bounded p"
    and "valid_at OvRead (nw n)" and "phase_at OvRead (nw n) = Idle"
    and "unat (buf_len buf) \<le> length (ninp n)" and "\<forall>(k, e) \<in> set ks. net_step p self e"
    and "awaits (\<lambda>f k. run_state (read_exact_poll fuel f k)) ks (read_exact_new (net_read p self) buf) n = Some (Ok (), n')"
  shows "read_moved nmem ninp buf (unat (buf_len buf)) n n'"
proof -
  have "\<forall>(k, e) \<in> set ks. \<forall>f t. re.within f \<longrightarrow> transferring p self n f t \<longrightarrow> transferring p self n f (e t)"
    using assms(6) by (auto intro: transferring_step [OF _ assms(1)])
  from re.awaits_coupled [OF transferring_coupled [OF assms(1,2)] read_exact_new_within
      transferring_new [OF assms(3-5)] assms(7) this]
  obtain g where "re.all_done g" "transferring p self n g n'" "re_buf g = buf"
    by (auto simp: read_exact_new_def)
  then show ?thesis using transferring_done by blast
qed

text \<open>A receive has completed with at least one byte, or there is nothing to read.\<close>

definition arrived :: "'b net read_exact \<Rightarrow> 'b net \<Rightarrow> bool" where
  "arrived f n \<longleftrightarrow> phase_at OvRead (nw n) = Complete \<and>
     (\<exists>m. cell_at OvRead (nw n) = io_result_set 0 m \<and> (0 < unat m \<or> re.left_over f = 0))"

lemma deliver_arrives:
  assumes "is_socket p (ts_inner self)" and "re.within f" and "transferring p self n0 f n"
    and "phase_at OvRead (nw n) = PendingIo" and "0 < j"
  shows "arrived f (deliver p self j n)"
proof -
  let ?b = "read_buf (re_read f)"
  define m where "m = min j (min (unat (buf_len ?b)) (length (ninp n)))"
  have J: "valid_at OvRead (nw n)" "posted (wlog (nw n)) = Some ?b"
    "read_moved nmem ninp (re_buf f) (unat (re_n f)) n0 n" "unat (buf_len (re_buf f)) \<le> length (ninp n0)"
    using assms(3,4) by (simp_all add: transferring_def)
  have small: "unat (of_nat m :: usize) = m"
    using unat_u32_less [of "buf_len ?b"] by (simp add: m_def unat_of_nat)
  have "0 < m \<or> re.left_over f = 0"
    using assms(5) re.within_rest [OF assms(2)] rest_available [OF assms(2) J(3,4)] by (auto simp: m_def)
  then show ?thesis
    using deliver_pending [OF assms(1) J(1) assms(4) J(2), of j, folded m_def] small
    unfolding arrived_def by metis
qed

text \<open>
  One poll goes on as long as receives succeed at once. It ends with success, or with a receive
  pending and no more bytes left to read than before.
\<close>

definition progressed ::
  "platform \<Rightarrow> tcp_stream \<Rightarrow> 'b net \<Rightarrow> nat \<Rightarrow> 'b net read_exact \<Rightarrow> (unit res poll \<times> 'b net read_exact) option \<times> 'b net \<Rightarrow> bool" where
  "progressed p self n0 d f x \<longleftrightarrow>
     (\<exists>g t. x = (Some (Ready (Ok ()), g), t)) \<or>
     (\<exists>g t. x = (Some (Pending, g), t) \<and> re.within g \<and> transferring p self n0 g t \<and> phase_at OvRead (nw t) = PendingIo \<and>
        re.left_over g + d \<le> re.left_over f \<and> (re.left_over f = 0 \<or> re.left_over g \<noteq> 0))"

lemma progressed_weaken:
  "progressed p self n0 0 g x \<Longrightarrow> re.left_over g + d \<le> re.left_over f \<Longrightarrow> re.left_over g \<noteq> 0 \<Longrightarrow>
   progressed p self n0 d f x"
  unfolding progressed_def by fastforce

text \<open>Some bytes are counted, and the rest of the poll goes on from there.\<close>

lemma counted_on:
  assumes "re.within f" and "unat m \<le> unat (buf_len (read_buf (re_read f)))" and "0 < unat m \<or> re.left_over f = 0"
    and "re_n f + m \<noteq> ucast (buf_len (re_buf f))"
  shows "re.left_over (re_moved_on (advance (read_buf (re_read f)) m) (re_n f + m) f) < re.left_over f"
    and "re.left_over (re_moved_on (advance (read_buf (re_read f)) m) (re_n f + m) f) \<noteq> 0"
proof -
  let ?g = "re_moved_on (advance (read_buf (re_read f)) m) (re_n f + m) f"
  note on = re.within_moved_on [OF assms(1,2)]
  show left: "re.left_over ?g \<noteq> 0"
  proof
    assume "re.left_over ?g = 0"
    then have "unat (re_n f + m) = unat (buf_len (re_buf f))"
      using on(1) by (simp add: re.left_over_def re.within_def re_moved_on_def)
    then show False using assms(4) by (metis unat_ucast_usize unsigned_word_eqI)
  qed
  then show "re.left_over ?g < re.left_over f" using on(3) assms(3) by linarith
qed

lemma idle_progress:
  assumes "is_socket p (ts_inner self)" and "recv_bounded p" and "recv_works p"
    and "re.within f" and "transferring p self n0 f n" and "phase_at OvRead (nw n) = Idle" and "re.left_over f < fuel"
  shows "progressed p self n0 0 f (run_state (read_exact_poll fuel f k) n)"
  using assms(4-)
proof (induction fuel arbitrary: f n)
  case (Suc fuel)
  obtain r t where once: "run_state (read_poll (re_read f) k) n = (r, t)" by fastforce
  from assms(1,2) Suc.prems(1-3) once show ?case
  proof (cases rule: transferring_idle)
    case pends
    then show ?thesis using Suc.prems(1) unfolding re.loop_Suc once progressed_def by auto
  next
    case (at_once m)
    let ?g = "re_moved_on (advance (read_buf (re_read f)) m) (re_n f + m) f"
    note on = re.within_moved_on [OF Suc.prems(1) at_once(2)]
    show ?thesis
    proof (cases "re_n f + m = ucast (buf_len (re_buf f))")
      case True
      then show ?thesis using at_once(1) unfolding re.loop_Suc once progressed_def by simp
    next
      case False
      have "0 < unat m \<or> re.left_over f = 0" using at_once(5) assms(3) by simp
      note less = counted_on [OF Suc.prems(1) at_once(2) this False]
      then have "progressed p self n0 0 ?g (run_state (read_exact_poll fuel ?g k) t)"
        using Suc.IH [OF on(1) at_once(3,4)] Suc.prems(4) by simp
      then show ?thesis
        using less False at_once(1) unfolding re.loop_Suc once by (auto intro!: progressed_weaken [where g = ?g])
    qed
  qed (use assms(3) in simp)
qed simp

lemma arrived_progress:
  assumes "is_socket p (ts_inner self)" and "recv_bounded p" and "recv_works p"
    and "re.within f" and "transferring p self n0 f n" and "arrived f n" and "re.left_over f < fuel"
  shows "progressed p self n0 1 f (run_state (read_exact_poll (Suc fuel) f k) n)"
proof -
  obtain m where m: "cell_at OvRead (nw n) = io_result_set 0 m" "0 < unat m \<or> re.left_over f = 0"
    and phase: "phase_at OvRead (nw n) = Complete"
    using assms(6) by (auto simp: arrived_def)
  obtain r t where once: "run_state (read_poll (re_read f) k) n = (r, t)" by fastforce
  from assms(1,4,5) phase once show ?thesis
  proof (cases rule: transferring_complete)
    case (taken m')
    then have m': "0 < unat m' \<or> re.left_over f = 0" using m by (auto simp: io_result_set_def NonZeroU32_new_def)
    let ?g = "re_moved_on (advance (read_buf (re_read f)) m') (re_n f + m') f"
    note on = re.within_moved_on [OF assms(4) taken(3)]
    show ?thesis
    proof (cases "re_n f + m' = ucast (buf_len (re_buf f))")
      case True
      then show ?thesis using taken(1) unfolding re.loop_Suc once progressed_def by simp
    next
      case False
      note less = counted_on [OF assms(4) taken(3) m' False]
      then have "progressed p self n0 0 ?g (run_state (read_exact_poll fuel ?g k) t)"
        using idle_progress [OF assms(1-3) on(1) taken(4,5)] assms(7) by simp
      then show ?thesis
        using less False taken(1) unfolding re.loop_Suc once by (auto intro!: progressed_weaken [where g = ?g])
    qed
  next
    case (failed e c m')
    then show ?thesis using m(1) by (simp add: io_result_set_def NonZeroU32_new_def)
  qed
qed

lemma arrived_completes:
  assumes "is_socket p (ts_inner self)" and "recv_bounded p" and "recv_works p"
    and "\<forall>(k, e) \<in> set ks. \<exists>j > 0. e = deliver p self j"
    and "re.within f" and "transferring p self n0 f n" and "arrived f n"
    and "re.left_over f \<le> length ks" and "ks \<noteq> []" and "re.left_over f < fuel"
  shows "\<exists>t. awaits (\<lambda>f k. run_state (read_exact_poll (Suc fuel) f k)) ks f n = Some (Ok (), t)"
  using assms(4-)
proof (induction ks arbitrary: f n)
  case (Cons x ks)
  obtain k j where x: "x = (k, deliver p self j)" and j: "0 < j" using Cons.prems(1) by fastforce
  from arrived_progress [OF assms(1-3) Cons.prems(2-4,7), of k]
  consider g t where "run_state (read_exact_poll (Suc fuel) f k) n = (Some (Ready (Ok ()), g), t)"
    | g t where "run_state (read_exact_poll (Suc fuel) f k) n = (Some (Pending, g), t)" "re.within g"
        "transferring p self n0 g t" "phase_at OvRead (nw t) = PendingIo" "re.left_over g + 1 \<le> re.left_over f"
        "re.left_over g \<noteq> 0"
    unfolding progressed_def by fastforce
  then show ?case
  proof cases
    case 1
    then show ?thesis by (simp add: x)
  next
    case (2 g t)
    have arr: "arrived g (deliver p self j t)" by (rule deliver_arrives [OF assms(1) 2(2-4) j])
    have "ks \<noteq> []" using 2(5,6) Cons.prems(5) by auto
    then have "\<exists>u. awaits (\<lambda>f k. run_state (read_exact_poll (Suc fuel) f k)) ks g (deliver p self j t) = Some (Ok (), u)"
      using Cons.prems(1,5,7) 2(5) arr
      by (intro Cons.IH [OF _ 2(2) transferring_deliver [OF assms(1) 2(2,3)]]) auto
    then show ?thesis unfolding x awaits.simps 2(1) by simp
  qed
qed simp

lemma tcp_returns:
  fixes n :: "'b net"
  assumes "is_socket p (ts_inner self)" and "recv_bounded p" and "recv_works p"
    and "valid_at OvRead (nw n)" and "phase_at OvRead (nw n) = Idle"
    and "unat (buf_len buf) \<le> length (ninp n)" and "\<forall>(k, e) \<in> set ks. \<exists>j > 0. e = deliver p self j"
    and "max 1 (unat (buf_len buf)) < length ks" and "unat (buf_len buf) + 2 \<le> fuel"
  shows "\<exists>n'. awaits (\<lambda>f k. run_state (read_exact_poll fuel f k)) ks (read_exact_new (net_read p self) buf) n = Some (Ok (), n')"
proof -
  let ?f = "read_exact_new (net_read p self) buf :: 'b net read_exact"
  obtain x ks' where ks: "ks = x # ks'" using assms(8) by (cases ks) auto
  then obtain k j where x: "x = (k, deliver p self j)" and j: "0 < j" using assms(7) by fastforce
  obtain fu where fuel: "fuel = Suc fu" "re.left_over ?f < fu"
    using assms(9) by (cases fuel) (auto simp: read_exact_new_def re.left_over_def)
  have "progressed p self n 0 ?f (run_state (read_exact_poll fuel ?f k) n)"
    using fuel by (intro idle_progress [OF assms(1-3) read_exact_new_within transferring_new [OF assms(4-6)] assms(5)]) simp
  then consider g t where "run_state (read_exact_poll fuel ?f k) n = (Some (Ready (Ok ()), g), t)"
    | g t where "run_state (read_exact_poll fuel ?f k) n = (Some (Pending, g), t)" "re.within g"
        "transferring p self n g t" "phase_at OvRead (nw t) = PendingIo" "re.left_over g \<le> re.left_over ?f"
    unfolding progressed_def by fastforce
  then show ?thesis
  proof cases
    case 1
    then show ?thesis unfolding ks x awaits.simps by simp
  next
    case (2 g t)
    have len: "re.left_over g \<le> length ks'" "ks' \<noteq> []"
      using 2(5) assms(8) ks by (auto simp: read_exact_new_def re.left_over_def)
    have "\<exists>t'. awaits (\<lambda>f k. run_state (read_exact_poll fuel f k)) ks' g (deliver p self j t) = Some (Ok (), t')"
      unfolding fuel(1) using assms(7) ks 2(5) fuel(2)
      by (intro arrived_completes [OF assms(1-3) _ 2(2) transferring_deliver [OF assms(1) 2(2,3)]
            deliver_arrives [OF assms(1) 2(2-4) j] len]) auto
    then show ?thesis unfolding ks x awaits.simps 2(1) by simp
  qed
qed

section \<open>Properties\<close>

text \<open>
  Property C8: \<open>read_exact\<close> on a TCP stream is right from end to end. Start with an idle read half of a
  connection that carries at least as many bytes as the buffer has room for. Each \<open>WSARecv\<close> may
  succeed at once, with any number of bytes that fits in its buffer, fail, or be left pending; the
  system completes pending receives as it likes, with any number of bytes or an error; the
  completions of receives that succeeded at once run while no receive is pending; and
  any other code that leaves the read half and the buffer alone runs in between. If awaiting
  \<open>read_exact(buf)\<close> succeeds, the next \<open>len\<close> bytes of the connection are in the buffer, in order,
  no others were taken from it, and no other memory has changed.
\<close>

theorem tcp_read_exact_fills:
  assumes "is_socket p (ts_inner self)" and "recv_bounded p"
    and "valid_at OvRead (nw n)" and "phase_at OvRead (nw n) = Idle"
    and "unat (buf_len buf) \<le> length (ninp n)" and "\<forall>(k, e) \<in> set ks. net_step p self e"
    and "awaits (\<lambda>f k. run_state (read_exact_poll fuel f k)) ks (read_exact_new (net_read p self) buf) n = Some (Ok (), n')"
  shows "read_moved nmem ninp buf (unat (buf_len buf)) n n'"
  by (rule tcp_transfer [OF assms])


section \<open>A connection to evaluate on\<close>

text \<open>A receive for two bytes succeeds at once, with one byte; the others are left pending.\<close>

definition sample_recv :: platform where
  "sample_recv = (sample_platform (\<lambda>_. 997))\<lparr>
     win := (\<lambda>l c. case c of
        WSARecv h ov b \<Rightarrow> if buf_len b = 2 then 0 else -1
      | WSAGetOverlappedResult h ov \<Rightarrow> c_TRUE (sample_platform (\<lambda>_. 997))
      | _ \<Rightarrow> 997),
     outp := (\<lambda>l c. 1)\<rparr>"

definition sample_reader_stream :: tcp_stream where
  "sample_reader_stream = \<lparr>ts_inner = \<lparr>io_hd = 5, ptp_io = 9, io_close = socket_close sample_recv,
     io_read = \<lparr>half_overlapped = OvRead, half_schedule = recv_schedule sample_recv, half_cancel = socket_cancel sample_recv\<rparr>,
     io_write = \<lparr>half_overlapped = OvWrite, half_schedule = send_schedule sample_recv, half_cancel = socket_cancel sample_recv\<rparr>\<rparr>\<rparr>"

definition sample_conn :: "nat net" where
  "sample_conn = \<lparr>nw = net_world, nmem = (\<lambda>_. 0), ninp = [5, 6, 8]\<rparr>"

definition sample_steps :: "(waker \<times> (nat net \<Rightarrow> nat net)) list" where
  "sample_steps = [(1, deliver sample_recv sample_reader_stream 1), (1, deliver sample_recv sample_reader_stream 9),
     (1, deliver sample_recv sample_reader_stream 9)]"

lemma sample_conn_ok:
  "is_socket sample_recv (ts_inner sample_reader_stream)" "recv_bounded sample_recv" "recv_works sample_recv"
  "valid_at OvRead (nw sample_conn)" "phase_at OvRead (nw sample_conn) = Idle" "length (ninp sample_conn) = 3"
proof -
  show "is_socket sample_recv (ts_inner sample_reader_stream)" by (simp add: is_socket_def sample_reader_stream_def)
qed (simp_all add: sample_recv_def recv_bounded_def recv_works_def reported_def sample_conn_def)

lemma sample_steps_ok:
  "\<forall>(k, e) \<in> set sample_steps. \<exists>j > 0. e = deliver sample_recv sample_reader_stream j"
  "\<forall>(k, e) \<in> set sample_steps. net_step sample_recv sample_reader_stream e" "length sample_steps = 3"
  by (auto simp: sample_steps_def net_step_def intro: exI [of _ 1] exI [of _ 9])

theorem tcp_read_exact_fills_witness:
  "\<exists>n'. awaits (\<lambda>f k. run_state (read_exact_poll 4 f k)) sample_steps
      (read_exact_new (net_read sample_recv sample_reader_stream) \<lparr>buf_len = 2, buf_ptr = 7\<rparr>) sample_conn = Some (Ok (), n') \<and>
    read_moved nmem ninp \<lparr>buf_len = 2, buf_ptr = 7\<rparr> 2 sample_conn n'"
proof -
  let ?b = "\<lparr>buf_len = 2, buf_ptr = 7\<rparr>"
  have len: "unat (buf_len ?b) \<le> length (ninp sample_conn)" by (simp add: sample_conn_ok)
  obtain n' where "awaits (\<lambda>f k. run_state (read_exact_poll 4 f k)) sample_steps
      (read_exact_new (net_read sample_recv sample_reader_stream) ?b) sample_conn = Some (Ok (), n')"
    using tcp_returns [OF sample_conn_ok(1-5) len sample_steps_ok(1), of 4] by (auto simp: sample_steps_ok(3))
  with tcp_read_exact_fills [OF sample_conn_ok(1,2,4,5) len sample_steps_ok(2) this] show ?thesis by auto
qed


end
