(* ===== verification/Tcp_Shared.thy ===== *)
theory Tcp_Shared
  imports Tcp_Props
begin

text \<open>
  Who owns the socket of a stream. \<open>TcpStream\<close> (\<open>src/net/tcp/stream.rs\<close>) and its halves
  (\<open>src/net/tcp/split.rs\<close>) share one \<open>Arc<IoHandle>\<close>: the last of them that is dropped drops the
  \<open>IoHandle\<close>. The futures \<open>Read\<close> and \<open>Write\<close> over a stream lend their buffer to the system; that it is
  given back before they are gone is a property of their drops. Both rest on the waiting cancel of
  the handle.
\<close>

section \<open>Reference counts\<close>

text \<open>\<open>Arc::new\<close>, \<open>clone\<close> and \<open>drop\<close>, as functions of the number of owners. The last drop runs the
  drop of the content.\<close>

definition arc_new :: nat where
  "arc_new = 1"

definition arc_clone :: "nat \<Rightarrow> nat" where
  "arc_clone n = n + 1"

definition arc_drop ::
  "(io_world, unit res option) state \<Rightarrow> nat \<Rightarrow> (io_world, unit res option \<times> nat) state" where
  "arc_drop content n =
     (if n = 1 then do { r \<leftarrow> content; State_Monad.return (r, 0) }
      else State_Monad.return (Some (Ok ()), n - 1))"

definition stream_drop ::
  "platform \<Rightarrow> (io_world \<Rightarrow> io_world) list \<Rightarrow> (io_world \<Rightarrow> io_world) list \<Rightarrow> tcp_stream \<Rightarrow> nat
     \<Rightarrow> (io_world, unit res option \<times> nat) state" where
  "stream_drop p env_read env_write self n = arc_drop (io_handle_drop p env_read env_write (ts_inner self)) n"

text \<open>\<open>split\<close> clones the \<open>Arc\<close> into the read half and moves the stream into the write half. Each half
  can be used as the stream it holds.\<close>

definition split_shared :: "tcp_stream \<Rightarrow> nat \<Rightarrow> (read_half \<times> write_half) \<times> nat" where
  "split_shared self n = (stream_split self, arc_clone n)"

definition read_half_as_ref :: "read_half \<Rightarrow> tcp_stream" where
  "read_half_as_ref self = rh_inner self"

definition write_half_as_ref :: "write_half \<Rightarrow> tcp_stream" where
  "write_half_as_ref self = wh_inner self"

text \<open>Dropping a half drops the stream in it.\<close>

definition read_half_drop ::
  "platform \<Rightarrow> (io_world \<Rightarrow> io_world) list \<Rightarrow> (io_world \<Rightarrow> io_world) list \<Rightarrow> read_half \<Rightarrow> nat
     \<Rightarrow> (io_world, unit res option \<times> nat) state" where
  "read_half_drop p env_read env_write self n = stream_drop p env_read env_write (rh_inner self) n"

definition write_half_drop ::
  "platform \<Rightarrow> (io_world \<Rightarrow> io_world) list \<Rightarrow> (io_world \<Rightarrow> io_world) list \<Rightarrow> write_half \<Rightarrow> nat
     \<Rightarrow> (io_world, unit res option \<times> nat) state" where
  "write_half_drop p env_read env_write self n = stream_drop p env_read env_write (wh_inner self) n"

section \<open>Cancelling on a socket\<close>

text \<open>The calls of \<open>cancel\<close> in \<open>socket.rs\<close>, and its answer, after the calls \<open>l\<close>.\<close>

definition cancel_calls :: "platform \<Rightarrow> ptr \<Rightarrow> overlapped \<Rightarrow> bool \<Rightarrow> call list \<Rightarrow> call list" where
  "cancel_calls p s ov wait l =
     CancelIoEx s ov # (if win p l (CancelIoEx s ov) \<noteq> 0 then [] else [GetLastError]) @
     (if wait then [GetOverlappedResult s ov] else [])"

definition cancel_answer :: "platform \<Rightarrow> ptr \<Rightarrow> overlapped \<Rightarrow> call list \<Rightarrow> unit res" where
  "cancel_answer p s ov l =
     (if win p l (CancelIoEx s ov) \<noteq> 0 then Ok ()
      else Err (Os (win p (l @ [CancelIoEx s ov]) GetLastError)))"

lemma run_socket_cancel:
  "run_state (socket_cancel p s ov wt) w =
     (cancel_answer p s ov (wlog w), logged (cancel_calls p s ov wt (wlog w)) w)"
  by (simp add: socket_cancel_def run_logged cancel_answer_def cancel_calls_def)

lemma socket_cancel_neutral [simp]: "core_neutral (socket_cancel p s ov wt)"
  by (simp add: core_neutral_def run_socket_cancel)

lemma socket_half [simp]:
  assumes "is_socket p ioh"
  shows "half_overlapped (half_of ioh wr) = (if wr then OvWrite else OvRead)"
    "half_cancel (half_of ioh wr) = socket_cancel p"
  using assms by (simp_all add: is_socket_def half_of_def)

text \<open>The world in which the waiting cancel of an operation on a socket waits.\<close>

definition waiting_world :: "platform \<Rightarrow> ptr \<Rightarrow> overlapped \<Rightarrow> io_world \<Rightarrow> io_world" where
  "waiting_world p s ov w =
     logged (notify_calls w @ cancel_calls p s ov True (wlog w @ notify_calls w))
       (upd_core ov (\<lambda>c. c\<lparr>st := CANCELLED_WAIT\<rparr>) w)"

lemma waiting_world_sel [simp]:
  "st (cores (waiting_world p s ov w) ov) = CANCELLED_WAIT"
  "ov' \<noteq> ov \<Longrightarrow> cores (waiting_world p s ov w) ov' = cores w ov'"
  "wlog (waiting_world p s ov w) = wlog w @ notify_calls w @ cancel_calls p s ov True (wlog w @ notify_calls w)"
  by (simp_all add: waiting_world_def)

lemma cancelling_world_logged:
  "cancelling_world True ov w = logged (notify_calls w) (upd_core ov (\<lambda>c. c\<lparr>st := CANCELLED_WAIT\<rparr>) w)"
  by (simp add: cancelling_world_def logged_def)

text \<open>
  The waiting cancel of a pending operation on a socket: it does not return before the callback of
  the operation, and then returns what \<open>CancelIoEx\<close> answered, with the operation ended.
\<close>

lemma socket_cancel_waits:
  fixes p :: platform and ioh :: io_handle and wr :: bool and r :: u32 and n :: usize and w :: io_world
  defines "ov \<equiv> if wr then OvWrite else OvRead"
  defines "cb \<equiv> \<lambda>w. snd (run_state (io_handle_callback p [] ioh ov r n) w)"
  assumes "is_socket p ioh" and "valid_at ov w" and "phase_at ov w = PendingIo"
  shows "run_state (io_handle_cancel p (replicate m (\<lambda>w. w)) ioh (half_of ioh wr) True) w =
      (None, waiting_world p (io_hd ioh) ov w)"
    and "run_state (io_handle_cancel p (replicate m (\<lambda>w. w) @ cb # env) ioh (half_of ioh wr) True) w =
      (Some (cancel_answer p (io_hd ioh) ov (wlog w @ notify_calls w)), cb (waiting_world p (io_hd ioh) ov w))"
    and "cb (waiting_world p (io_hd ioh) ov w) = upd_core ov (\<lambda>c. c\<lparr>st := READY\<rparr>) (waiting_world p (io_hd ioh) ov w)"
proof -
  let ?half = "half_of ioh wr" and ?v = "waiting_world p (io_hd ioh) ov w"
  let ?b = "\<lambda>w. is_busy (st (cores w ov))"
  have half: "half_overlapped ?half = ov" "half_cancel ?half = socket_cancel p"
    using assms(3) by (simp_all add: ov_def)
  have run: "run_state (half_cancel ?half (io_hd ioh) ov True) (cancelling_world True ov w) =
      (cancel_answer p (io_hd ioh) ov (wlog w @ notify_calls w), ?v)"
    by (simp add: half run_socket_cancel cancelling_world_logged waiting_world_def)
  have "is_half ioh ov" using half(1) is_half_half_of [of ioh wr] by simp
  then show cb: "cb ?v = upd_core ov (\<lambda>c. c\<lparr>st := READY\<rparr>) ?v"
    unfolding cb_def by (subst io_handle_callback_cancelled) (simp_all add: valid_state_def)
  have busy: "?b ?v" "\<not> ?b (cb ?v)"
    by (simp_all add: cb is_busy_def io_state_values)
  have "spin_while ?b (replicate m (\<lambda>w. w)) ?v = None"
    "spin_while ?b (replicate m (\<lambda>w. w) @ cb # env) ?v = Some (cb ?v)"
    using busy by (induction m) simp_all
  then show "run_state (io_handle_cancel p (replicate m (\<lambda>w. w)) ioh ?half True) w = (None, ?v)"
    and "run_state (io_handle_cancel p (replicate m (\<lambda>w. w) @ cb # env) ioh ?half True) w =
      (Some (cancel_answer p (io_hd ioh) ov (wlog w @ notify_calls w)), cb ?v)"
    using io_handle_cancel_pending [where half = ?half and w = w and p = p and self = ioh and wt = True] assms(4,5) run by (simp_all add: half(1))
qed

lemma half_of_sel: "half_of ioh False = io_read ioh" "half_of ioh True = io_write ioh"
  by (simp_all add: half_of_def)

lemma io_handle_drop_idle:
  assumes "is_socket p ioh" and "valid_at OvRead w" "phase_at OvRead w \<noteq> PendingIo"
    and "valid_at OvWrite w" "phase_at OvWrite w \<noteq> PendingIo"
  shows "run_state (io_handle_drop p env env' ioh) w =
    (Some (Ok ()), logged ((if ptp_io ioh \<noteq> 0 then [CloseThreadpoolIo (ptp_io ioh)] else []) @
       [closesocket (io_hd ioh)]) w)"
  using assms
  by (simp add: io_handle_drop_def unwrap_then_def io_handle_cancel_read_def io_handle_cancel_write_def
      io_handle_cancel_not_pending is_socket_def socket_close_def run_logged)

section \<open>Properties\<close>

text \<open>
  Property C17: the futures \<open>Read\<close> and \<open>Write\<close> over a TCP stream do not go away while the system uses
  their buffer. Dropped with their operation pending, they ask the system once to cancel it and
  then wait: the drop has not returned as long as the completion callback has not run, however
  often it looks, and returns after it, with the operation ended. The drop of a \<open>Read\<close> ignores an
  error of the cancellation, that of a \<open>Write\<close> panics.
\<close>

theorem dropped_futures_wait:
  fixes p :: platform and self :: tcp_stream and buf :: wsabuf and r :: u32 and n :: usize and w :: io_world
  defines "ioh \<equiv> ts_inner self"
  defines "rd \<equiv> \<lambda>env. run_state (read_drop (read_new (stream_async_read p env self) buf)) w"
  defines "wd \<equiv> \<lambda>env. run_state (write_drop (write_new (stream_async_write p env self) buf)) w"
  defines "cb \<equiv> \<lambda>ov w. snd (run_state (io_handle_callback p [] ioh ov r n) w)"
  assumes "is_socket p ioh" and "valid_at OvRead w" and "valid_at OvWrite w"
  shows "(phase_at OvRead w = PendingIo \<longrightarrow>
      fst (rd (replicate m (\<lambda>w. w))) = None \<and>
      fst (rd (replicate m (\<lambda>w. w) @ cb OvRead # env)) = Some (Ok ()) \<and>
      phase_at OvRead (snd (rd (replicate m (\<lambda>w. w) @ cb OvRead # env))) = Complete \<and>
      wlog (snd (rd (replicate m (\<lambda>w. w) @ cb OvRead # env))) =
        wlog w @ notify_calls w @ cancel_calls p (io_hd ioh) OvRead True (wlog w @ notify_calls w)) \<and>
    (phase_at OvWrite w = PendingIo \<longrightarrow>
      fst (wd (replicate m (\<lambda>w. w))) = None \<and>
      fst (wd (replicate m (\<lambda>w. w) @ cb OvWrite # env)) =
        Some (if win p (wlog w @ notify_calls w) (CancelIoEx (io_hd ioh) OvWrite) \<noteq> 0 then Ok ()
              else Fault (Panicked ''called Result::unwrap() on an Err value'')) \<and>
      phase_at OvWrite (snd (wd (replicate m (\<lambda>w. w) @ cb OvWrite # env))) = Complete)"
proof -
  have rd: "rd env = (case run_state (io_handle_cancel p env ioh (half_of ioh False) True) w of (r, w') \<Rightarrow>
      (map_option (map_res (\<lambda>_. ()) \<circ> res_ok) r, w'))" for env
    by (simp add: rd_def read_drop_def read_new_def ref_async_read_def stream_async_read_def
        io_handle_cancel_read_def half_of_sel ioh_def split: prod.split)
  have wd: "wd env = (case run_state (io_handle_cancel p env ioh (half_of ioh True) True) w of (r, w') \<Rightarrow>
      (map_option unwrap r, w'))" for env
    by (simp add: wd_def write_drop_def write_new_def ref_async_write_def stream_async_write_def
        io_handle_cancel_write_def half_of_sel ioh_def split: prod.split)
  have ans: "map_res (\<lambda>_. ()) (res_ok (cancel_answer p s ov l)) = Ok ()" for s ov l
    by (simp add: cancel_answer_def)
  show ?thesis
    using socket_cancel_waits [OF assms(5), where wr = False and w = w]
      socket_cancel_waits [OF assms(5), where wr = True and w = w] assms(6,7)
    by (simp add: rd wd cb_def ans) (simp add: cancel_answer_def)
qed


definition reading_world :: io_world where
  "reading_world = upd_core OvRead (\<lambda>c. c\<lparr>st := PENDING\<rparr>) net_world"

lemma reading_world_sel [simp]:
  "st (cores reading_world OvRead) = PENDING" "st (cores reading_world OvWrite) = IDLE"
  by (simp_all add: reading_world_def io_core_new_def io_state_new_def)

lemma sample_stream_is_socket [simp]: "is_socket (sample_platform (\<lambda>_. 997)) (ts_inner sample_stream)"
  by (simp add: is_socket_def sample_stream_def)

lemma sample_stream_sel [simp]: "io_hd (ts_inner sample_stream) = 5" "ptp_io (ts_inner sample_stream) = 9"
  by (simp_all add: sample_stream_def)

theorem dropped_futures_wait_witness:
  "let p = sample_platform (\<lambda>_. 997); b = \<lparr>buf_len = 10, buf_ptr = 99\<rparr>;
       cb = (\<lambda>w. snd (run_state (io_handle_callback p [] (ts_inner sample_stream) OvRead 995 0) w));
       rd = (\<lambda>env. run_state (read_drop (read_new (stream_async_read p env sample_stream) b)) reading_world)
   in fst (rd [\<lambda>w. w]) = None \<and> fst (rd [\<lambda>w. w, cb]) = Some (Ok ()) \<and>
     phase_at OvRead (snd (rd [\<lambda>w. w, cb])) = Complete"
  using dropped_futures_wait [where p = "sample_platform (\<lambda>_. 997)" and self = sample_stream and w = reading_world
      and buf = "\<lparr>buf_len = 10, buf_ptr = 99\<rparr>" and r = 995 and n = 0 and env = "[]" and m = 1]
  by (simp add: Let_def valid_state_def)

text \<open>
  Property C22: splitting a stream does not close its socket twice, nor too early. Both halves refer to
  the same stream; dropping one of them, whichever it is, changes nothing; dropping the other then
  closes the I/O object and the socket, once each, in whatever state without pending operations
  the handle is at that time, and with a pending read closes neither before the read has ended.
\<close>

theorem split_closes_once:
  fixes p :: platform and self :: tcp_stream and first :: bool and w w' :: io_world
  defines "ioh \<equiv> ts_inner self"
  defines "h \<equiv> fst (fst (split_shared self arc_new))"
  defines "t \<equiv> snd (fst (split_shared self arc_new))"
  defines "n \<equiv> snd (split_shared self arc_new)"
  defines "dr \<equiv> \<lambda>b env env' k. run_state (if b then read_half_drop p env env' h k else write_half_drop p env env' t k)"
  assumes "is_socket p ioh" and "ptp_io ioh \<noteq> 0" and "valid_at OvRead w'" and "valid_at OvWrite w'"
  shows "read_half_as_ref h = self \<and> write_half_as_ref t = self \<and>
    dr first env env' n w = ((Some (Ok ()), 1), w) \<and>
    (phase_at OvRead w' \<noteq> PendingIo \<and> phase_at OvWrite w' \<noteq> PendingIo \<longrightarrow>
      dr (\<not> first) env env' 1 w' =
        ((Some (Ok ()), 0), logged [CloseThreadpoolIo (ptp_io ioh), closesocket (io_hd ioh)] w')) \<and>
    (phase_at OvRead w' = PendingIo \<longrightarrow>
      fst (fst (dr (\<not> first) (replicate m (\<lambda>w. w)) env' 1 w')) = None \<and>
      (\<exists>cs. snd (dr (\<not> first) (replicate m (\<lambda>w. w)) env' 1 w') =
          logged cs (upd_core OvRead (\<lambda>c. c\<lparr>st := CANCELLED_WAIT\<rparr>) w') \<and>
        CloseThreadpoolIo (ptp_io ioh) \<notin> set cs \<and> closesocket (io_hd ioh) \<notin> set cs))"
proof -
  have halves: "rh_inner h = self" "wh_inner t = self" "n = 2"
    by (simp_all add: h_def t_def n_def split_shared_def stream_split_def arc_new_def arc_clone_def)
  have dr: "dr b env env' k = run_state (arc_drop (io_handle_drop p env env' ioh) k)" for b env env' k
    by (simp add: dr_def read_half_drop_def write_half_drop_def stream_drop_def halves ioh_def)
  have pending: "run_state (io_handle_drop p (replicate m (\<lambda>w. w)) env' ioh) w' = (None, waiting_world p (io_hd ioh) OvRead w')"
    if "phase_at OvRead w' = PendingIo"
    using socket_cancel_waits(1) [OF assms(6), where wr = False and w = w' and m = m] assms(8) that
    by (simp add: io_handle_drop_def unwrap_then_def io_handle_cancel_read_def half_of_sel)
  have "c \<notin> set (notify_calls w') \<and> c \<notin> set (cancel_calls p (io_hd ioh) OvRead True l)"
    if "c = CloseThreadpoolIo (ptp_io ioh) \<or> c = closesocket (io_hd ioh)" for c l
    using that by (auto simp: notify_calls_def cancel_calls_def split: option.splits)
  then show ?thesis
    using io_handle_drop_idle [OF assms(6)] assms(7-9) pending
    by (auto simp: dr arc_drop_def halves read_half_as_ref_def write_half_as_ref_def waiting_world_def
        intro!: exI [of _ "notify_calls w' @ cancel_calls p (io_hd ioh) OvRead True (wlog w' @ notify_calls w')"])
qed

theorem split_closes_once_witness:
  "let p = sample_platform (\<lambda>_. 997);
       ((h, t), n) = split_shared sample_stream arc_new;
       ((_, n1), w1) = run_state (write_half_drop p [] [] t n) net_world;
       ((r, n2), w2) = run_state (read_half_drop p [] [] h n1) w1
   in wlog w1 = [] \<and> r = Some (Ok ()) \<and> n2 = 0 \<and> wlog w2 = [CloseThreadpoolIo 9, closesocket 5]"
  using split_closes_once [where p = "sample_platform (\<lambda>_. 997)" and self = sample_stream and w = net_world
      and w' = net_world and first = False and env = "[]" and env' = "[]" and m = 0]
  by (auto simp: Let_def valid_state_def io_core_new_def io_state_new_def split: prod.splits)

text \<open>
  Property: an address that is not an IP address makes \<open>local_addr\<close> and \<open>peer_addr\<close> panic, and the
  panic closes the socket of a stream that is still in use: the temporary \<open>Socket\<close> of \<open>with_socket\<close>
  is not forgotten but dropped. The drop of the stream then closes the same number again.
\<close>

theorem addr_panic_closes_twice:
  fixes p :: platform and self :: tcp_stream
  defines "ioh \<equiv> ts_inner self"
  assumes "is_socket p ioh" and "ptp_io ioh \<noteq> 0" and "run_state (get (io_hd ioh)) w = (Ok None, w1)"
    and "valid_at OvRead w1" and "valid_at OvWrite w1"
    and "phase_at OvRead w1 \<noteq> PendingIo" and "phase_at OvWrite w1 \<noteq> PendingIo"
  shows "let (r, w2) = run_state (stream_addr p get self) w; ((d, n), w3) = run_state (stream_drop p env env' self arc_new) w2
    in r = Fault (Panicked ''called Option::unwrap() on a None value'') \<and> d = Some (Ok ()) \<and> n = 0 \<and>
      w3 = logged [closesocket (io_hd ioh), CloseThreadpoolIo (ptp_io ioh), closesocket (io_hd ioh)] w1"
  using io_handle_drop_idle [OF assms(2), of "logged [closesocket (io_hd ioh)] w1" env env'] assms(3-8)
  by (simp add: stream_addr_def with_socket_def stream_drop_def arc_drop_def arc_new_def socket_close_def run_logged
      ioh_def [symmetric])

theorem addr_panic_closes_twice_witness:
  "let p = sample_platform (\<lambda>_. 997);
       (r, w2) = run_state (stream_addr p (\<lambda>_. State_Monad.return (Ok None)) sample_stream) net_world
   in count_list (wlog (snd (run_state (stream_drop p [] [] sample_stream arc_new) w2))) (closesocket 5) = 2"
  using addr_panic_closes_twice [where p = "sample_platform (\<lambda>_. 997)" and self = sample_stream and w = net_world
      and get = "\<lambda>_. State_Monad.return (Ok None)" and env = "[]" and env' = "[]"]
  by (auto simp: Let_def valid_state_def io_core_new_def io_state_new_def split: prod.splits)

end
