(* ===== verification/Debug_Fmt.thy ===== *)
theory Debug_Fmt
  imports Tcp_Props Executor
begin

text \<open>
  The \<open>fmt::Debug\<close> impls of the crate: the text each type shows, plain (\<open>{:?}\<close>) and alternate
  (\<open>{:#?}\<close>). The builders of \<open>core::fmt\<close> come first. Formatting a stream or a listener asks the
  system for its addresses, so those impls are computations; the text of a type of another crate
  (\<open>socket2::Socket\<close>, \<open>async_task::Task\<close>) is a parameter, and so is the name the standard library
  shows for \<open>MaybeUninit<u8>\<close>, which differs between its versions. The sink is a \<open>String\<close>, which
  accepts every text.
\<close>

section \<open>Builders of \<open>core::fmt\<close>\<close>

text \<open>What a \<open>Debug\<close> impl writes, given whether the alternate form is asked for.\<close>

type_synonym debug_text = "bool \<Rightarrow> rstr"

definition lit :: "string \<Rightarrow> rstr" where
  "lit s = map of_char s"

definition newline :: nat where
  "newline = 10"

text \<open>\<open>PadAdapter\<close>: four spaces at the start of each line; the flag says whether a line starts.\<close>

primrec pad_adapter :: "bool \<Rightarrow> rstr \<Rightarrow> rstr" where
  "pad_adapter on_newline [] = []"
| "pad_adapter on_newline (c # cs) =
     (if on_newline then lit ''    '' else []) @ c # pad_adapter (c = newline) cs"

record debug_builder =
  db_alternate :: bool
  db_text :: rstr
  db_has_fields :: bool

definition debug_struct :: "bool \<Rightarrow> string \<Rightarrow> debug_builder" where
  "debug_struct alt name = \<lparr>db_alternate = alt, db_text = lit name, db_has_fields = False\<rparr>"

definition debug_field :: "string \<Rightarrow> debug_text \<Rightarrow> debug_builder \<Rightarrow> debug_builder" where
  "debug_field name value b =
     b\<lparr>db_text := db_text b @
         (if db_alternate b then
            (if db_has_fields b then [] else lit '' {'' @ [newline]) @
            pad_adapter True (lit name @ lit '': '' @ value True @ lit '','' @ [newline])
          else lit (if db_has_fields b then '', '' else '' { '') @ lit name @ lit '': '' @ value False),
       db_has_fields := True\<rparr>"

definition debug_finish :: "debug_builder \<Rightarrow> rstr" where
  "debug_finish b =
     db_text b @ (if db_has_fields b then lit (if db_alternate b then ''}'' else '' }'') else [])"

text \<open>\<open>debug_tuple(name).finish()\<close>: without fields there are no parentheses.\<close>

definition debug_tuple_finish :: "string \<Rightarrow> rstr" where
  "debug_tuple_finish name = lit name"

text \<open>\<open>debug_list().entries(..).finish()\<close>, which slices use.\<close>

fun debug_entries :: "bool \<Rightarrow> bool \<Rightarrow> debug_text list \<Rightarrow> rstr" where
  "debug_entries alt has_fields [] = lit '']''"
| "debug_entries alt has_fields (v # vs) =
     (if alt then (if has_fields then [] else [newline]) @ pad_adapter True (v True @ lit '','' @ [newline])
      else (if has_fields then lit '', '' else []) @ v False) @ debug_entries alt True vs"

definition slice_debug :: "debug_text list \<Rightarrow> debug_text" where
  "slice_debug vs alt = lit ''['' @ debug_entries alt False vs"

text \<open>Values of the standard library: integers, pointers, addresses.\<close>

definition uint_debug :: "nat \<Rightarrow> debug_text" where
  "uint_debug n alt = digits 10 n"

definition bool_debug :: "bool \<Rightarrow> debug_text" where
  "bool_debug b alt = lit (if b then ''true'' else ''false'')"

definition ptr_debug :: "ptr \<Rightarrow> debug_text" where
  "ptr_debug a alt =
     (let ds = digits 16 (unat (word_of_int a :: usize))
      in lit ''0x'' @ (if alt then replicate (16 - length ds) (of_char CHR ''0'') else []) @ ds)"

definition socket_addr_debug :: "socket_addr \<Rightarrow> debug_text" where
  "socket_addr_debug a alt = socket_addr_text a"

section \<open>Thread pool, context, tasks\<close>

text \<open>\<open>Priority\<close>, \<open>Builder\<close> and \<open>Threadpool\<close> derive \<open>Debug\<close>.\<close>

fun priority_debug :: "priority \<Rightarrow> debug_text" where
  "priority_debug High alt = lit ''High''"
| "priority_debug Normal alt = lit ''Normal''"
| "priority_debug Low alt = lit ''Low''"

definition builder_debug :: "builder \<Rightarrow> debug_text" where
  "builder_debug self alt =
     debug_finish (debug_field ''net'' (bool_debug (net self))
       (debug_field ''min_threads'' (uint_debug (unat (min_threads self)))
         (debug_field ''max_threads'' (uint_debug (unat (max_threads self))) (debug_struct alt ''Builder''))))"

definition handle_debug :: "handle \<Rightarrow> debug_text" where
  "handle_debug self alt =
     debug_finish (debug_field ''priority'' (priority_debug (h_priority self))
       (debug_field ''pool'' (ptr_debug (Pool (inner_environ (inner self)))) (debug_struct alt ''Handle'')))"

definition threadpool_debug :: "threadpool \<Rightarrow> debug_text" where
  "threadpool_debug self alt =
     debug_finish (debug_field ''handle'' (handle_debug (pool_handle self)) (debug_struct alt ''Threadpool''))"

definition context_guard_debug :: "context_guard \<Rightarrow> debug_text" where
  "context_guard_debug self alt = debug_finish (debug_struct alt ''ContextGuard'')"

definition join_handle_debug :: "(runnable \<Rightarrow> debug_text) \<Rightarrow> join_handle \<Rightarrow> debug_text" where
  "join_handle_debug task_debug self alt =
     debug_finish (debug_field ''task'' (task_debug (jh_task self)) (debug_struct alt ''JoinHandle''))"

section \<open>Buffers and the futures over them\<close>

definition io_slice_mut_debug :: "rstr \<Rightarrow> wsabuf \<Rightarrow> debug_text" where
  "io_slice_mut_debug maybe_uninit self =
     slice_debug (replicate (unat (sl_len (io_slice_mut_deref self))) (\<lambda>_. maybe_uninit))"

text \<open>The bytes of the slice are read from memory.\<close>

definition io_slice_debug :: "(ptr \<Rightarrow> 8 word) \<Rightarrow> wsabuf \<Rightarrow> debug_text" where
  "io_slice_debug mem self =
     (let s = io_slice_deref self
      in slice_debug (map (\<lambda>i. uint_debug (unat (mem (sl_ptr s + int i)))) [0..<unat (sl_len s)]))"

definition read_debug :: "'s read \<Rightarrow> debug_text" where
  "read_debug self alt = debug_finish (debug_struct alt ''Read'')"

definition read_exact_debug :: "'s read_exact \<Rightarrow> debug_text" where
  "read_exact_debug self alt = debug_finish (debug_struct alt ''ReadExact'')"

definition write_debug :: "'s write_future \<Rightarrow> debug_text" where
  "write_debug self alt = debug_finish (debug_struct alt ''Write'')"

definition write_all_debug :: "'s write_all \<Rightarrow> debug_text" where
  "write_all_debug self alt = debug_finish (debug_struct alt ''WriteExact'')"

definition to_socket_addrs_debug :: "to_socket_addrs \<Rightarrow> debug_text" where
  "to_socket_addrs_debug self alt = debug_tuple_finish ''ToSocketAddrs''"

definition to_socket_addrs_iter_debug :: "to_socket_addrs_iter \<Rightarrow> debug_text" where
  "to_socket_addrs_iter_debug self alt = debug_tuple_finish ''ToSocketAddrsIter''"

section \<open>Streams and listeners\<close>

text \<open>\<open>if let Ok(addr) = addr { dbg.field(name, &addr); }\<close>; a panic of the accessor goes through.\<close>

definition field_if_ok ::
  "string \<Rightarrow> (io_world, socket_addr res) state \<Rightarrow> debug_builder \<Rightarrow> (io_world, debug_builder res) state" where
  "field_if_ok name addr dbg = do {
     r \<leftarrow> addr;
     State_Monad.return
       (case r of
          Ok a \<Rightarrow> Ok (debug_field name (socket_addr_debug a) dbg)
        | Err e \<Rightarrow> Ok dbg
        | Fault f \<Rightarrow> Fault f) }"

type_synonym get_addr = "ptr \<Rightarrow> (io_world, socket_addr option res) state"

definition stream_debug ::
  "platform \<Rightarrow> get_addr \<Rightarrow> get_addr \<Rightarrow> tcp_stream \<Rightarrow> bool \<Rightarrow> (io_world, rstr res) state" where
  "stream_debug p local_addr peer_addr self alt =
     qmark (field_if_ok ''addr'' (stream_addr p local_addr self) (debug_struct alt ''TcpListener'')) (\<lambda>dbg.
     qmark (field_if_ok ''peer'' (stream_addr p peer_addr self) dbg) (\<lambda>dbg.
     State_Monad.return (Ok (debug_finish dbg))))"

definition read_half_debug ::
  "platform \<Rightarrow> get_addr \<Rightarrow> get_addr \<Rightarrow> read_half \<Rightarrow> bool \<Rightarrow> (io_world, rstr res) state" where
  "read_half_debug p local_addr peer_addr self alt =
     qmark (field_if_ok ''addr'' (stream_addr p local_addr (rh_inner self)) (debug_struct alt ''ReadHalf'')) (\<lambda>dbg.
     qmark (field_if_ok ''peer'' (stream_addr p peer_addr (rh_inner self)) dbg) (\<lambda>dbg.
     State_Monad.return (Ok (debug_finish dbg))))"

definition write_half_debug ::
  "platform \<Rightarrow> get_addr \<Rightarrow> get_addr \<Rightarrow> write_half \<Rightarrow> bool \<Rightarrow> (io_world, rstr res) state" where
  "write_half_debug p local_addr peer_addr self alt =
     qmark (field_if_ok ''addr'' (stream_addr p local_addr (wh_inner self)) (debug_struct alt ''WriteHalf'')) (\<lambda>dbg.
     qmark (field_if_ok ''peer'' (stream_addr p peer_addr (wh_inner self)) dbg) (\<lambda>dbg.
     State_Monad.return (Ok (debug_finish dbg))))"

definition listener_debug ::
  "(ptr \<Rightarrow> debug_text) \<Rightarrow> get_addr \<Rightarrow> tcp_listener \<Rightarrow> bool \<Rightarrow> (io_world, rstr res) state" where
  "listener_debug socket_debug local_addr self alt =
     qmark (field_if_ok ''addr'' (listener_addr local_addr self)
       (debug_field ''socket'' (socket_debug (li_socket self)) (debug_struct alt ''TcpListener''))) (\<lambda>dbg.
     State_Monad.return (Ok (debug_finish dbg)))"

text \<open>\<open>Accept\<close> and \<open>Incoming\<close> show their listener as a field.\<close>

definition accept_debug ::
  "(ptr \<Rightarrow> debug_text) \<Rightarrow> get_addr \<Rightarrow> accept \<Rightarrow> bool \<Rightarrow> (io_world, rstr res) state" where
  "accept_debug socket_debug local_addr self alt =
     qmark (listener_debug socket_debug local_addr (ac_listener self) alt) (\<lambda>text.
     State_Monad.return (Ok (debug_finish (debug_field ''listener'' (\<lambda>_. text) (debug_struct alt ''Accept'')))))"

definition incoming_debug ::
  "(ptr \<Rightarrow> debug_text) \<Rightarrow> get_addr \<Rightarrow> incoming \<Rightarrow> bool \<Rightarrow> (io_world, rstr res) state" where
  "incoming_debug socket_debug local_addr self alt =
     qmark (listener_debug socket_debug local_addr (ac_listener (in_accept self)) alt) (\<lambda>text.
     State_Monad.return (Ok (debug_finish (debug_field ''listener'' (\<lambda>_. text) (debug_struct alt ''Incoming'')))))"

section \<open>Laying out the text\<close>

lemma lit_simps [simp]: "lit [] = []" "lit (c # s) = of_char c # lit s"
  by (simp_all add: lit_def)

lemma pad_adapter_append:
  "pad_adapter b (xs @ ys) = pad_adapter b xs @ pad_adapter (if xs = [] then b else last xs = newline) ys"
  by (induction xs arbitrary: b) auto

lemma pad_adapter_line:
  "newline \<notin> set xs \<Longrightarrow> pad_adapter b xs = (if b \<and> xs \<noteq> [] then lit ''    '' else []) @ xs"
proof (induction xs arbitrary: b)
  case (Cons c cs)
  then show ?case using Cons.IH [of False] by simp
qed simp

text \<open>A field whose text is one line is one indented line of the alternate form.\<close>

lemma pad_adapter_field:
  assumes "newline \<notin> set xs" and "xs \<noteq> []"
  shows "pad_adapter True (xs @ lit '','' @ [newline]) = lit ''    '' @ xs @ lit '','' @ [newline]"
proof -
  have "last xs \<noteq> newline" using assms last_in_set by metis
  with pad_adapter_append [of True xs "lit '','' @ [newline]"] pad_adapter_line [of xs True] assms
  show ?thesis by (simp add: newline_def)
qed

text \<open>The text of \<open>debug_field\<close>, in both forms, for a value that is one line.\<close>

lemma debug_field_plain:
  "\<not> db_alternate b \<Longrightarrow> db_text (debug_field name v b) =
     db_text b @ lit (if db_has_fields b then '', '' else '' { '') @ lit name @ lit '': '' @ v False"
  by (simp add: debug_field_def)

lemma debug_field_alternate:
  assumes "db_alternate b" and "newline \<notin> set (lit name)" and "newline \<notin> set (v True)"
  shows "db_text (debug_field name v b) =
     db_text b @ (if db_has_fields b then [] else lit '' {'' @ [newline]) @
     lit ''    '' @ lit name @ lit '': '' @ v True @ lit '','' @ [newline]"
  using pad_adapter_field [of "lit name @ lit '': '' @ v True"] assms
  by (simp add: debug_field_def newline_def)

lemma debug_field_sel [simp]:
  "db_alternate (debug_field name v b) = db_alternate b" "db_has_fields (debug_field name v b)"
  by (simp_all add: debug_field_def)

lemma debug_struct_sel [simp]:
  "db_alternate (debug_struct alt name) = alt" "\<not> db_has_fields (debug_struct alt name)"
  "db_text (debug_struct alt name) = lit name"
  by (simp_all add: debug_struct_def)

lemma digits_one_line: "2 \<le> radix \<Longrightarrow> newline \<notin> set (digits radix n)"
  using digits_chars [of radix n] by (auto simp: newline_def digit_char_def split: if_splits)

lemma join_chars: "c \<in> set (join sep xs) \<Longrightarrow> c = sep \<or> (\<exists>x \<in> set xs. c \<in> set x)"
  by (induction sep xs rule: join.induct) auto

lemma socket_addr_one_line [simp]: "newline \<notin> set (socket_addr_text a)"
proof -
  have v4: "newline \<notin> set (ipv4_text os)" for os
    using digits_one_line [of 10] by (auto simp: ipv4_text_def newline_def dest!: join_chars)
  have groups: "newline \<notin> set (groups_text gs)" for gs
    using digits_one_line [of 16] by (auto simp: groups_text_def newline_def dest!: join_chars)
  have "newline \<notin> set (ipv6_text gs)" for gs
    using v4 groups by (auto simp: ipv6_text_def split: prod.split) (simp_all add: newline_def)
  with v4 digits_one_line [of 10] show ?thesis
    by (cases a rule: socket_addr_text.cases) (auto simp: newline_def)
qed

section \<open>Properties\<close>

lemma run_field_if_ok:
  assumes "run_state (get (io_hd (ts_inner self))) w = (r, w1)"
  shows "run_state (field_if_ok name (stream_addr p get self) dbg) w =
    (case as_std_unwrap r of
       Ok a \<Rightarrow> (Ok (debug_field name (socket_addr_debug a) dbg), w1)
     | Err e \<Rightarrow> (Ok dbg, w1)
     | Fault f \<Rightarrow> (Fault f, logged [closesocket (io_hd (ts_inner self))] w1))"
  using assms
  by (simp add: field_if_ok_def stream_addr_def with_socket_def socket_close_def run_logged split: res.split)

lemma addr_field_alternate:
  assumes "db_alternate b" and "name = ''addr'' \<or> name = ''peer''"
  shows "db_text (debug_field name (socket_addr_debug a) b) =
     db_text b @ (if db_has_fields b then [] else lit '' {'' @ [newline]) @
     lit ''    '' @ lit name @ lit '': '' @ socket_addr_text a @ lit '','' @ [newline]"
proof -
  have "newline \<notin> set (lit name)" using assms(2) by (auto simp: newline_def)
  with debug_field_alternate [OF assms(1)] show ?thesis by (simp add: socket_addr_debug_def)
qed

text \<open>
  Property C40: what \<open>{:?}\<close> and \<open>{:#?}\<close> show of a TCP stream. It shows the local address and the address
  of the peer that the system gave, an address it could not give is left out, and every shown
  address can be parsed back from its text, without the flow information of IPv6. The halves show
  the same after their own names. The name shown for a stream is that of a listener. An address
  that is not IP makes the formatting panic, and closes the socket of the stream.
\<close>

theorem stream_debug_text:
  fixes p :: platform and self :: tcp_stream and w :: io_world and local_addr peer_addr :: get_addr
  defines "s \<equiv> io_hd (ts_inner self)"
  defines "dbg \<equiv> \<lambda>alt. run_state (stream_debug p local_addr peer_addr self alt) w"
  assumes "run_state (local_addr s) w = (r1, w1)" and "run_state (peer_addr s) w1 = (r2, w2)"
  shows "(case (as_std_unwrap r1, as_std_unwrap r2) of
      (Ok a, Ok b) \<Rightarrow>
        dbg False = (Ok (lit ''TcpListener { addr: '' @ socket_addr_text a @ lit '', peer: '' @
          socket_addr_text b @ lit '' }''), w2) \<and>
        dbg True = (Ok (lit ''TcpListener {'' @ [newline] @ lit ''    addr: '' @ socket_addr_text a @ lit '','' @ [newline] @
          lit ''    peer: '' @ socket_addr_text b @ lit '','' @ [newline] @ lit ''}''), w2) \<and>
        parse_addr (socket_addr_text a) = Some (without_flowinfo a) \<and>
        parse_addr (socket_addr_text b) = Some (without_flowinfo b)
    | (Ok a, Err e) \<Rightarrow> dbg False = (Ok (lit ''TcpListener { addr: '' @ socket_addr_text a @ lit '' }''), w2)
    | (Err e, Ok b) \<Rightarrow> dbg False = (Ok (lit ''TcpListener { peer: '' @ socket_addr_text b @ lit '' }''), w2)
    | (Err e, Err e') \<Rightarrow> dbg False = (Ok (lit ''TcpListener''), w2)
    | (Fault f, _) \<Rightarrow> dbg alt = (Fault f, logged [closesocket s] w1)
    | (_, Fault f) \<Rightarrow> dbg alt = (Fault f, logged [closesocket s] w2)) \<and>
    run_state (read_half_debug p local_addr peer_addr (fst (stream_split self)) alt) w =
      map_prod (map_res (\<lambda>t. lit ''ReadHalf'' @ drop 11 t)) id (dbg alt) \<and>
    run_state (write_half_debug p local_addr peer_addr (snd (stream_split self)) alt) w =
      map_prod (map_res (\<lambda>t. lit ''WriteHalf'' @ drop 11 t)) id (dbg alt)"
proof -
  have run1: "run_state (field_if_ok name (stream_addr p local_addr self) d) w =
      (case as_std_unwrap r1 of
         Ok a \<Rightarrow> (Ok (debug_field name (socket_addr_debug a) d), w1)
       | Err e \<Rightarrow> (Ok d, w1) | Fault f \<Rightarrow> (Fault f, logged [closesocket s] w1))" for name d
    using run_field_if_ok assms(3) unfolding s_def by simp
  have run2: "run_state (field_if_ok name (stream_addr p peer_addr self) d) w1 =
      (case as_std_unwrap r2 of
         Ok a \<Rightarrow> (Ok (debug_field name (socket_addr_debug a) d), w2)
       | Err e \<Rightarrow> (Ok d, w2) | Fault f \<Rightarrow> (Fault f, logged [closesocket s] w2))" for name d
    using run_field_if_ok assms(4) unfolding s_def by simp
  have split: "rh_inner (fst (stream_split self)) = self" "wh_inner (snd (stream_split self)) = self"
    by (simp_all add: stream_split_def)
  note runs = run_qmark run1 run2 split dbg_def stream_debug_def read_half_debug_def write_half_debug_def
  show ?thesis
    by (cases "as_std_unwrap r1"; cases "as_std_unwrap r2"; cases alt)
      (simp_all add: runs debug_finish_def debug_field_plain addr_field_alternate parse_addr_text,
       simp_all add: socket_addr_debug_def)
qed

theorem stream_debug_text_witness:
  "fst (run_state (stream_debug (sample_platform (\<lambda>_. 997)) (\<lambda>_. State_Monad.return (Ok (Some (V4 (SocketAddrV4 0x7F000001 80)))))
      (\<lambda>_. State_Monad.return (Err (Os 10057))) sample_stream False) net_world) =
    Ok (lit ''TcpListener { addr: '' @ socket_addr_text (V4 (SocketAddrV4 0x7F000001 80)) @ lit '' }'')"
  using stream_debug_text [where p = "sample_platform (\<lambda>_. 997)" and self = sample_stream and w = net_world
      and local_addr = "\<lambda>_. State_Monad.return (Ok (Some (V4 (SocketAddrV4 0x7F000001 80))))"
      and peer_addr = "\<lambda>_. State_Monad.return (Err (Os 10057))"
      and ?r1.0 = "Ok (Some (V4 (SocketAddrV4 0x7F000001 80)))" and ?r2.0 = "Err (Os 10057)"
      and ?w1.0 = net_world and ?w2.0 = net_world and alt = False]
  by simp

end
